theory Spec2Isabelle
  imports Main "HOL-Library.Word" "HOL-Library.Char_ord" "HOL-Library.List_Lexorder"
    "HOL-Library.Sublist"
begin

section \<open>Data model of \<open>pkg/deploy/dapp_chart.go\<close>\<close>

text \<open>
  A path is the list of its components below the root, so \<open>filepath.Join\<close> is list
  concatenation and \<open>filepath.Dir\<close> is \<open>butlast\<close>. File contents are byte strings.
  Go's \<open>error\<close> values are a datatype: the errors of the operating system, the errors
  of external collaborators, and \<open>fmt.Errorf\<close> with its format and its arguments.
\<close>

type_synonym path = "string list"
type_synonym bytes = string

datatype error =
    ENOENT path
  | ENOTDIR path
  | EISDIR path
  | External string
  | Errorf string "fmt_arg list"
and fmt_arg =
    ArgPath path
  | ArgString string
  | ArgError error

definition DefaultSecretValuesFile :: string where
  "DefaultSecretValuesFile = ''secret-values.yaml''"

definition SecretDirName :: string where
  "SecretDirName = ''secret''"

definition DecodedSecretDirName :: string where
  "DecodedSecretDirName = ''decoded-secret''"

definition MoreValuesDirName :: string where
  "MoreValuesDirName = ''more-values''"

text \<open>The struct \<open>DappChart\<close>; \<open>moreValuesCounter\<close> is a Go \<open>uint\<close> (64 bits).\<close>

record DappChart =
  ChartDir :: path
  Values :: "path list"
  Set :: "string list"
  moreValuesCounter :: "64 word"

text \<open>The fields of \<open>HelmChartOptions\<close> that \<open>Deploy\<close> fills in.\<close>

record HelmChartOptions =
  hSet :: "string list"
  hValues :: "path list"
  hKubeContext :: string
  hDryRun :: bool
  hDebug :: bool

text \<open>
  \<open>secret.Secret\<close> is a Go interface: a value of it is \<open>nil\<close> or some provider, here
  \<open>'s option\<close>.
\<close>

record 's DappChartOptions =
  Secret :: "'s option"

subsection \<open>Secret decoding\<close>

text \<open>Both decoders return \<open>(data, nil)\<close>: \<open>Inr\<close> is the value with a nil error.\<close>

definition decodeSecretValues :: "bytes \<Rightarrow> 's option \<Rightarrow> error + bytes" where
  "decodeSecretValues data secret = Inr data"

definition decodeSecret :: "bytes \<Rightarrow> 's option \<Rightarrow> error + bytes" where
  "decodeSecret data secret = Inr data"

subsection \<open>Deploy\<close>

text \<open>
  \<open>DeployHelmChart\<close> lives in another file of the package; it is a parameter. The method
  has a pointer receiver, so the model returns the chart after the call next to the error.
\<close>

definition Deploy ::
  "(path \<Rightarrow> string \<Rightarrow> string \<Rightarrow> HelmChartOptions \<Rightarrow> error option) \<Rightarrow>
   DappChart \<Rightarrow> string \<Rightarrow> string \<Rightarrow> HelmChartOptions \<Rightarrow> error option \<times> DappChart" where
  "Deploy DeployHelmChart chart releaseName namespace opts =
     (DeployHelmChart (ChartDir chart) releaseName namespace
        \<lparr> hSet = Set chart @ hSet opts,
          hValues = Values chart @ hValues opts,
          hKubeContext = hKubeContext opts,
          hDryRun = hDryRun opts,
          hDebug = hDebug opts \<rparr>,
      chart)"

section \<open>The file system\<close>

text \<open>
  The file system is an association list from paths to nodes; the newest entry of a path
  is the one in force, and the root is a directory. Nothing in this program removes a
  node. Modes, owners and symbolic links are not modelled: an operation fails only when
  the shape of the tree forbids it (a missing parent, a file where a directory is needed,
  a directory where a file is needed).

  The world also carries the log of the operations issued, newest first, so that what a
  call reads and what it writes can be stated.
\<close>

datatype node = File bytes | Dir

datatype event =
    EvStat path
  | EvReadFile path
  | EvReadDir path
  | EvMkdir path
  | EvWriteFile path

record world =
  files :: "(path \<times> node) list"
  events :: "event list"

definition lookup :: "world \<Rightarrow> path \<Rightarrow> node option" where
  "lookup w p = (if p = [] then Some Dir else map_of (files w) p)"

definition emit :: "event \<Rightarrow> world \<Rightarrow> world" where
  "emit e w = w\<lparr>events := e # events w\<rparr>"

definition put :: "path \<Rightarrow> node \<Rightarrow> world \<Rightarrow> world" where
  "put p n w = w\<lparr>files := (p, n) # files w\<rparr>"

fun is_file :: "node option \<Rightarrow> bool" where
  "is_file (Some (File d)) = True"
| "is_file _ = False"

text \<open>
  The error of a path that is not there: \<open>ENOTDIR\<close> when a file lies on the way to
  it, \<open>ENOENT\<close> otherwise.
\<close>

definition missing :: "world \<Rightarrow> path \<Rightarrow> error" where
  "missing w p =
     (if list_ex (\<lambda>q. is_file (lookup w q)) (prefixes p) then ENOTDIR p else ENOENT p)"

definition os_Stat :: "world \<Rightarrow> path \<Rightarrow> (error + node) \<times> world" where
  "os_Stat w p =
     (case lookup w p of
        Some n \<Rightarrow> (Inr n, emit (EvStat p) w)
      | None \<Rightarrow> (Inl (missing w p), emit (EvStat p) w))"

fun os_IsNotExist :: "error + 'a \<Rightarrow> bool" where
  "os_IsNotExist (Inl (ENOENT p)) = True"
| "os_IsNotExist _ = False"

definition ioutil_ReadFile :: "world \<Rightarrow> path \<Rightarrow> (error + bytes) \<times> world" where
  "ioutil_ReadFile w p =
     (case lookup w p of
        Some (File d) \<Rightarrow> (Inr d, emit (EvReadFile p) w)
      | Some Dir \<Rightarrow> (Inl (EISDIR p), emit (EvReadFile p) w)
      | None \<Rightarrow> (Inl (missing w p), emit (EvReadFile p) w))"

text \<open>
  \<open>os.MkdirAll\<close>: nothing to do on a directory, an error on a file, and otherwise the
  parent first and then the directory itself.
\<close>

function os_MkdirAll :: "world \<Rightarrow> path \<Rightarrow> error option \<times> world" where
  "os_MkdirAll w p =
     (case lookup w p of
        Some Dir \<Rightarrow> (None, emit (EvStat p) w)
      | Some (File d) \<Rightarrow> (Some (ENOTDIR p), emit (EvStat p) w)
      | None \<Rightarrow>
          (case os_MkdirAll (emit (EvStat p) w) (butlast p) of
             (Some e, w') \<Rightarrow> (Some e, w')
           | (None, w') \<Rightarrow> (None, put p Dir (emit (EvMkdir p) w'))))"
  by pat_completeness auto
termination
  by (relation "measure (\<lambda>(w, p). length p)") (auto simp: lookup_def split: if_splits)

declare os_MkdirAll.simps [simp del]

text \<open>
  \<open>ioutil.WriteFile\<close> opens the path for writing, creating or truncating the file: the
  path must not be a directory and its parent must be one.
\<close>

definition ioutil_WriteFile :: "world \<Rightarrow> path \<Rightarrow> bytes \<Rightarrow> error option \<times> world" where
  "ioutil_WriteFile w p data =
     (case lookup w p of
        Some Dir \<Rightarrow> (Some (EISDIR p), emit (EvWriteFile p) w)
      | _ \<Rightarrow>
        (case lookup w (butlast p) of
           Some Dir \<Rightarrow> (None, put p (File data) (emit (EvWriteFile p) w))
         | Some (File d) \<Rightarrow> (Some (ENOTDIR p), emit (EvWriteFile p) w)
         | None \<Rightarrow> (Some (missing w p), emit (EvWriteFile p) w)))"

text \<open>The names in a directory, sorted as \<open>sort.Strings\<close> sorts them (by bytes).\<close>

definition readDirNames :: "world \<Rightarrow> path \<Rightarrow> string list" where
  "readDirNames w p =
     sort (remdups (map (\<lambda>(q, n). last q) (filter (\<lambda>(q, n). q \<noteq> [] \<and> butlast q = p) (files w))))"

text \<open>
  \<open>filepath.Walk\<close> (of the Go release this code was written for) and \<open>copy.Copy\<close> are the
  same traversal: look at the path; call the visitor on it; when it is a directory and
  the visitor returned nil, read its names and go through them in order, stopping at the
  first error. The directory is listed when it is entered, in the file system as the
  visits so far have left it, so the traversal need not end when the visitor writes into
  the tree being walked: the recursion depth is bounded by the fuel, and \<open>None\<close> says
  that the fuel ran out.
\<close>

type_synonym visitor = "path \<Rightarrow> error + node \<Rightarrow> world \<Rightarrow> error option \<times> world"

fun traverse :: "nat \<Rightarrow> visitor \<Rightarrow> path \<Rightarrow> world \<Rightarrow> (error option \<times> world) option"
and traverse_names ::
  "nat \<Rightarrow> visitor \<Rightarrow> path \<Rightarrow> string list \<Rightarrow> world \<Rightarrow> (error option \<times> world) option" where
  "traverse 0 f p w = None"
| "traverse (Suc k) f p w =
     (case os_Stat w p of
        (Inl e, w1) \<Rightarrow> Some (f p (Inl e) w1)
      | (Inr (File d), w1) \<Rightarrow> Some (f p (Inr (File d)) w1)
      | (Inr Dir, w1) \<Rightarrow>
          (case f p (Inr Dir) w1 of
             (Some e, w2) \<Rightarrow> Some (Some e, w2)
           | (None, w2) \<Rightarrow> traverse_names k f p (readDirNames w2 p) (emit (EvReadDir p) w2)))"
| "traverse_names k f p [] w = Some (None, w)"
| "traverse_names k f p (name # names) w =
     (case traverse k f (p @ [name]) w of
        None \<Rightarrow> None
      | Some (Some e, w') \<Rightarrow> Some (Some e, w')
      | Some (None, w') \<Rightarrow> traverse_names k f p names w')"

text \<open>
  \<open>copy.Copy\<close> of \<open>github.com/otiai10/copy\<close>: an error of \<open>Lstat\<close> is returned as it is;
  a directory is made at the destination with \<open>MkdirAll\<close>; a file is created at the
  destination (after \<open>MkdirAll\<close> of its parent) and the source's bytes are copied
  into it.
\<close>

definition copy_visit :: "path \<Rightarrow> path \<Rightarrow> visitor" where
  "copy_visit src dest p info w =
     (let d = dest @ drop (length src) p in
      case info of
        Inl e \<Rightarrow> (Some e, w)
      | Inr Dir \<Rightarrow> os_MkdirAll w d
      | Inr (File x) \<Rightarrow>
          (case os_MkdirAll w (butlast d) of
             (Some e, w1) \<Rightarrow> (Some e, w1)
           | (None, w1) \<Rightarrow>
               (case ioutil_WriteFile w1 d [] of
                  (Some e, w2) \<Rightarrow> (Some e, w2)
                | (None, w2) \<Rightarrow>
                    (case ioutil_ReadFile w2 p of
                       (Inl e, w3) \<Rightarrow> (Some e, w3)
                     | (Inr data, w3) \<Rightarrow> ioutil_WriteFile w3 d data))))"

definition copy_Copy :: "nat \<Rightarrow> path \<Rightarrow> path \<Rightarrow> world \<Rightarrow> (error option \<times> world) option" where
  "copy_Copy k src dest w = traverse k (copy_visit src dest) src w"

text \<open>
  \<open>os.Create\<close> opens like \<open>WriteFile\<close> and leaves the file empty; \<open>f.Write\<close> then puts
  the bytes into the open file.
\<close>

definition os_Create :: "world \<Rightarrow> path \<Rightarrow> error option \<times> world" where
  "os_Create w p = ioutil_WriteFile w p []"

definition file_Write :: "world \<Rightarrow> path \<Rightarrow> bytes \<Rightarrow> error option \<times> world" where
  "file_Write w p data = (None, put p (File data) (emit (EvWriteFile p) w))"

section \<open>Strings\<close>

text \<open>\<open>fmt.Sprintf("%d", n)\<close> of an unsigned integer: its decimal digits.\<close>

definition digit :: "nat \<Rightarrow> char" where
  "digit d = char_of (48 + d)"

function showNat :: "nat \<Rightarrow> string" where
  "showNat n = (if n < 10 then [digit n] else showNat (n div 10) @ [digit (n mod 10)])"
  by pat_completeness auto
termination
  by (relation "measure id") auto

declare showNat.simps [simp del]

text \<open>
  \<open>strings.TrimRightFunc(s, unicode.IsSpace)\<close> decodes the last rune of the string and
  drops it while it is a space. The runes \<open>unicode.IsSpace\<close> accepts are listed here by
  their UTF-8 encodings: U+0009 to U+000D, U+0020, U+0085, U+00A0, U+1680, U+2000 to
  U+200A, U+2028, U+2029, U+202F, U+205F, U+3000. No encoding is a suffix of another, and
  a byte sequence that is not valid UTF-8 decodes to the error rune, which is no space.
\<close>

definition space_runes :: "string list" where
  "space_runes =
     [[CHR 0x09], [CHR 0x0A], [CHR 0x0B], [CHR 0x0C], [CHR 0x0D], [CHR 0x20],
      [CHR 0xC2, CHR 0x85], [CHR 0xC2, CHR 0xA0],
      [CHR 0xE1, CHR 0x9A, CHR 0x80],
      [CHR 0xE2, CHR 0x80, CHR 0x80], [CHR 0xE2, CHR 0x80, CHR 0x81],
      [CHR 0xE2, CHR 0x80, CHR 0x82], [CHR 0xE2, CHR 0x80, CHR 0x83],
      [CHR 0xE2, CHR 0x80, CHR 0x84], [CHR 0xE2, CHR 0x80, CHR 0x85],
      [CHR 0xE2, CHR 0x80, CHR 0x86], [CHR 0xE2, CHR 0x80, CHR 0x87],
      [CHR 0xE2, CHR 0x80, CHR 0x88], [CHR 0xE2, CHR 0x80, CHR 0x89],
      [CHR 0xE2, CHR 0x80, CHR 0x8A],
      [CHR 0xE2, CHR 0x80, CHR 0xA8], [CHR 0xE2, CHR 0x80, CHR 0xA9],
      [CHR 0xE2, CHR 0x80, CHR 0xAF], [CHR 0xE2, CHR 0x81, CHR 0x9F],
      [CHR 0xE3, CHR 0x80, CHR 0x80]]"

definition last_space :: "string \<Rightarrow> string option" where
  "last_space s = find (\<lambda>r. suffix r s) space_runes"

lemma last_space_shorter:
  assumes "last_space s = Some r"
  shows "length s - length r < length s"
proof -
  from assms have "r \<in> set space_runes" and "suffix r s"
    by (auto simp: last_space_def find_Some_iff)
  then have "r \<noteq> []" and "length r \<le> length s"
    by (auto simp: space_runes_def suffix_length_le)
  then show ?thesis
    by (cases r) auto
qed

function TrimRightSpace :: "string \<Rightarrow> string" where
  "TrimRightSpace s =
     (case last_space s of
        None \<Rightarrow> s
      | Some r \<Rightarrow> TrimRightSpace (take (length s - length r) s))"
  by pat_completeness auto
termination
  by (relation "measure length") (auto simp: last_space_shorter)

declare TrimRightSpace.simps [simp del]

text \<open>\<open>strings.TrimPrefix\<close>, on paths.\<close>

definition TrimPrefix :: "path \<Rightarrow> path \<Rightarrow> path" where
  "TrimPrefix p pre = (if prefix pre p then drop (length pre) p else p)"

section \<open>The chart's methods\<close>

text \<open>
  A method with a pointer receiver takes the chart and the world and returns the error
  (\<open>None\<close> is nil), the chart and the world after the call. \<open>yaml.Marshal\<close> and the
  \<open>%#v\<close> rendering of the values are parameters.
\<close>

definition moreValuesPath :: "DappChart \<Rightarrow> path" where
  "moreValuesPath chart =
     ChartDir chart @ [MoreValuesDirName, showNat (unat (moreValuesCounter chart)) @ ''.yaml'']"

definition SetGlobalAnnotation ::
  "string \<Rightarrow> string \<Rightarrow> DappChart \<Rightarrow> world \<Rightarrow> error option \<times> DappChart \<times> world" where
  "SetGlobalAnnotation name v chart w = (None, chart, w)"

definition SetValues ::
  "('v \<Rightarrow> error + bytes) \<Rightarrow> ('v \<Rightarrow> string) \<Rightarrow> 'v \<Rightarrow> DappChart \<Rightarrow> world \<Rightarrow>
   error option \<times> DappChart \<times> world" where
  "SetValues yaml_Marshal gosyntax vals chart w =
     (let path = moreValuesPath chart in
      case os_MkdirAll w (butlast path) of
        (Some err, w1) \<Rightarrow> (Some err, chart, w1)
      | (None, w1) \<Rightarrow>
          (case yaml_Marshal vals of
             Inl err \<Rightarrow>
               (Some (Errorf ''cannot marshal values %#v to yaml: %s''
                        [ArgString (gosyntax vals), ArgError err]), chart, w1)
           | Inr data \<Rightarrow>
               (case ioutil_WriteFile w1 path data of
                  (Some err, w2) \<Rightarrow>
                    (Some (Errorf ''error writing values file %s: %s''
                             [ArgPath path, ArgString data]), chart, w2)
                | (None, w2) \<Rightarrow>
                    (None,
                     chart\<lparr>Values := Values chart @ [path],
                           moreValuesCounter := moreValuesCounter chart + 1\<rparr>,
                     w2))))"

definition SetValuesSet ::
  "string \<Rightarrow> DappChart \<Rightarrow> world \<Rightarrow> error option \<times> DappChart \<times> world" where
  "SetValuesSet s chart w = (None, chart\<lparr>Set := Set chart @ [s]\<rparr>, w)"

definition SetValuesFile ::
  "path \<Rightarrow> DappChart \<Rightarrow> world \<Rightarrow> error option \<times> DappChart \<times> world" where
  "SetValuesFile path chart w = (None, chart\<lparr>Values := Values chart @ [path]\<rparr>, w)"

definition SetSecretValuesFile ::
  "path \<Rightarrow> 's option \<Rightarrow> DappChart \<Rightarrow> world \<Rightarrow> error option \<times> DappChart \<times> world" where
  "SetSecretValuesFile path secret chart w =
     (case ioutil_ReadFile w path of
        (Inl err, w1) \<Rightarrow>
          (Some (Errorf ''cannot read secret values file %s: %s'' [ArgPath path, ArgError err]),
           chart, w1)
      | (Inr data, w1) \<Rightarrow>
          (case decodeSecretValues data secret of
             Inl err \<Rightarrow>
               (Some (Errorf ''cannot decode secret values file %s data: %s''
                        [ArgPath path, ArgError err]), chart, w1)
           | Inr decodedData \<Rightarrow>
               (let newPath = moreValuesPath chart in
                case os_MkdirAll w1 (butlast newPath) of
                  (Some err, w2) \<Rightarrow> (Some err, chart, w2)
                | (None, w2) \<Rightarrow>
                    (case ioutil_WriteFile w2 newPath decodedData of
                       (Some err, w3) \<Rightarrow>
                         (Some (Errorf ''cannot write decoded secret values file %s: %s''
                                  [ArgPath newPath, ArgError err]), chart, w3)
                     | (None, w3) \<Rightarrow>
                         (None,
                          chart\<lparr>Values := Values chart @ [newPath],
                                moreValuesCounter := moreValuesCounter chart + 1\<rparr>,
                          w3)))))"

definition Render :: "DappChart \<Rightarrow> world \<Rightarrow> error option \<times> DappChart \<times> world" where
  "Render chart w = (None, chart, w)"

definition Lint :: "DappChart \<Rightarrow> world \<Rightarrow> error option \<times> DappChart \<times> world" where
  "Lint chart w = (None, chart, w)"

section \<open>Preparing the chart\<close>

text \<open>The function literal that \<open>PrepareDappChart\<close> hands to \<open>filepath.Walk\<close>.\<close>

definition walkFn :: "path \<Rightarrow> path \<Rightarrow> 's option \<Rightarrow> visitor" where
  "walkFn secretDir targetDir secret path info w =
     (case info of
        Inl accessErr \<Rightarrow>
          (Some (Errorf ''error accessing file %s: %s'' [ArgPath path, ArgError accessErr]), w)
      | Inr Dir \<Rightarrow> (None, w)
      | Inr (File x) \<Rightarrow>
          (let relativePath = TrimPrefix path secretDir;
               newPath = targetDir @ [DecodedSecretDirName] @ relativePath in
           if secret = None then
             (case os_MkdirAll w (butlast newPath) of
                (Some err, w1) \<Rightarrow> (Some err, w1)
              | (None, w1) \<Rightarrow>
                  (case ioutil_WriteFile w1 newPath [] of
                     (Some err, w2) \<Rightarrow>
                       (Some (Errorf ''unable to create decoded secret file %s: %s''
                                [ArgPath newPath, ArgError err]), w2)
                   | (None, w2) \<Rightarrow> (None, w2)))
           else
             (case ioutil_ReadFile w path of
                (Inl err, w1) \<Rightarrow>
                  (Some (Errorf ''error reading file %s: %s'' [ArgPath path, ArgError err]), w1)
              | (Inr data, w1) \<Rightarrow>
                  (case decodeSecret (TrimRightSpace data) secret of
                     Inl err \<Rightarrow>
                       (Some (Errorf ''error decoding %s: %s'' [ArgPath path, ArgError err]), w1)
                   | Inr decodedData \<Rightarrow>
                       (case os_MkdirAll w1 (butlast newPath) of
                          (Some err, w2) \<Rightarrow> (Some err, w2)
                        | (None, w2) \<Rightarrow>
                            (case ioutil_WriteFile w2 newPath decodedData of
                               (Some err, w3) \<Rightarrow>
                                 (Some (Errorf ''error writing file %s: %s''
                                          [ArgPath newPath, ArgError err]), w3)
                             | (None, w3) \<Rightarrow> (None, w3)))))))"

definition filepath_Walk ::
  "nat \<Rightarrow> path \<Rightarrow> visitor \<Rightarrow> world \<Rightarrow> (error option \<times> world) option" where
  "filepath_Walk k root f w = traverse k f root w"

text \<open>
  \<open>PrepareDappChart\<close>. The template \<open>DappChartHelpersTpl\<close> is a variable of the package
  defined in another file: a parameter. The result is \<open>None\<close> when the fuel of a
  traversal ran out, and otherwise the returned pair (\<open>Inl\<close> the error, \<open>Inr\<close> the
  chart) with the world after the call.
\<close>

definition PrepareDappChart ::
  "nat \<Rightarrow> bytes \<Rightarrow> path \<Rightarrow> path \<Rightarrow> 's DappChartOptions \<Rightarrow> world \<Rightarrow>
   ((error + DappChart) \<times> world) option" where
  "PrepareDappChart fuel DappChartHelpersTpl projectDir targetDir opts w =
     (let dappChart = \<lparr>ChartDir = targetDir, Values = [], Set = [], moreValuesCounter = 0\<rparr>;
          projectHelmDir = projectDir @ [''.helm''] in
      case copy_Copy fuel projectHelmDir targetDir w of
        None \<Rightarrow> None
      | Some (Some err, w1) \<Rightarrow>
          Some (Inl (Errorf ''unable to copy project helm dir %s into %s: %s''
                       [ArgPath projectHelmDir, ArgPath targetDir, ArgError err]), w1)
      | Some (None, w1) \<Rightarrow>
          (let helpersTplPath = targetDir @ [''templates'', ''_dapp_helpers.tpl''] in
           case os_Create w1 helpersTplPath of
             (Some err, w2) \<Rightarrow>
               Some (Inl (Errorf ''unable to create %s: %s''
                            [ArgPath helpersTplPath, ArgError err]), w2)
           | (None, w2) \<Rightarrow>
               (case file_Write w2 helpersTplPath DappChartHelpersTpl of
                  (Some err, w3) \<Rightarrow>
                    Some (Inl (Errorf ''unable to write %s: %s''
                                 [ArgPath helpersTplPath, ArgError err]), w3)
                | (None, w3) \<Rightarrow>
                    (let defaultSecretValues = projectDir @ [DefaultSecretValuesFile] in
                     case os_Stat w3 defaultSecretValues of
                       (st, w4) \<Rightarrow>
                         (case (if \<not> os_IsNotExist st
                                then SetSecretValuesFile defaultSecretValues (Secret opts)
                                       dappChart w4
                                else (None, dappChart, w4)) of
                            (Some err, chart, w5) \<Rightarrow> Some (Inl err, w5)
                          | (None, chart, w5) \<Rightarrow>
                              (let secretDir = projectDir @ [SecretDirName] in
                               case os_Stat w5 secretDir of
                                 (st', w6) \<Rightarrow>
                                   if \<not> os_IsNotExist st' then
                                     (case filepath_Walk fuel secretDir
                                             (walkFn secretDir targetDir (Secret opts)) w6 of
                                        None \<Rightarrow> None
                                      | Some (Some err, w7) \<Rightarrow> Some (Inl err, w7)
                                      | Some (None, w7) \<Rightarrow> Some (Inr chart, w7))
                                   else Some (Inr chart, w6)))))))"

section \<open>Sequences of values writes\<close>




section \<open>The cleanup command\<close>

text \<open>
  The second source file is the \<open>cleanup\<close> subcommand. \<open>NewCmd\<close> is the list of what it
  registers on the command, in order: the helpers of package \<open>common\<close> it calls, and the
  one flag it registers itself with \<open>BoolVarP\<close> (name, shorthand, default, usage). The
  helpers are in \<open>cmd/werf/common\<close>, which is not among the sources: what each of them
  registers is left open.
\<close>

datatype setup_helper =
    SetupDir | SetupTmpDir | SetupHomeDir
  | SetupStagesStorage | SetupImagesRepo | SetupDockerConfig | SetupInsecureRepo
  | SetupImagesCleanupPolicies
  | SetupKubeConfig | SetupKubeContext
  | SetupDryRun

datatype registration =
    Helper setup_helper
  | BoolVarP string string bool string

definition NewCmd :: "registration list" where
  "NewCmd =
     [Helper SetupDir, Helper SetupTmpDir, Helper SetupHomeDir,
      Helper SetupStagesStorage, Helper SetupImagesRepo, Helper SetupDockerConfig,
      Helper SetupInsecureRepo, Helper SetupImagesCleanupPolicies,
      Helper SetupKubeConfig, Helper SetupKubeContext,
      Helper SetupDryRun,
      BoolVarP ''without-kube'' [] False ''Do not skip deployed kubernetes images'']"

text \<open>
  The flags after parsing: \<open>CommonCmdData\<close> (the fields \<open>runCleanup\<close> dereferences) and
  the command's own \<open>CmdData\<close>.
\<close>

record CommonCmdData =
  TmpDir :: string
  HomeDir :: string
  InsecureRepo :: bool
  DockerConfig :: string
  KubeContext :: string
  KubeConfig :: string
  DryRun :: bool

record CmdData =
  WithoutKube :: bool

text \<open>The option structures of package \<open>cleanup\<close>, as the literals build them.\<close>

record Image =
  Name :: string

record WerfConfig =
  Meta_Project :: string
  Images :: "Image list"

record Local =
  Path :: path
  GitDir :: path

record CommonRepoOptions =
  repo_ImagesRepo :: string
  repo_StagesStorage :: string
  repo_ImagesNames :: "string list"
  repo_DryRun :: bool

record CommonOptions =
  common_DryRun :: bool

record CommonProjectOptions =
  ProjectName :: string
  CommonOptions :: CommonOptions

record 'p ImagesCleanupOptions =
  images_CommonRepoOptions :: CommonRepoOptions
  LocalGit :: "Local option"
  images_WithoutKube :: bool
  Policies :: 'p

record StagesCleanupOptions =
  stages_CommonRepoOptions :: CommonRepoOptions
  stages_CommonProjectOptions :: CommonProjectOptions

record 'p CleanupOptions =
  StagesCleanupOptions :: StagesCleanupOptions
  ImagesCleanupOptions :: "'p ImagesCleanupOptions"

text \<open>
  The collaborators \<open>runCleanup\<close> calls, each as the function of its arguments that gives
  its result, and the calls as they are issued.
\<close>

record 'p collaborators =
  werf_Init :: "string \<Rightarrow> string \<Rightarrow> error option"
  lock_Init :: "error option"
  docker_registry_Init :: "bool \<Rightarrow> error option"
  docker_Init :: "string \<Rightarrow> error option"
  GetKubeContext :: "string \<Rightarrow> string"
  kube_Init :: "string \<Rightarrow> string \<Rightarrow> error option"
  GetProjectDir :: "CommonCmdData \<Rightarrow> error + path"
  CreateProjectDir :: "error + string"
  GetWerfConfig :: "path \<Rightarrow> error + WerfConfig"
  GetImagesRepo :: "string \<Rightarrow> CommonCmdData \<Rightarrow> error + string"
  GetStagesRepo :: "CommonCmdData \<Rightarrow> error + string"
  DirExists :: "path \<Rightarrow> error + bool"
  GetImagesCleanupPolicies :: "CommonCmdData \<Rightarrow> error + 'p"
  Cleanup :: "'p CleanupOptions \<Rightarrow> error option"

datatype 'p call =
    Call_werf_Init string string
  | Call_lock_Init
  | Call_docker_registry_Init bool
  | Call_docker_Init string
  | Call_kube_Init string string
  | Call_GetProjectDir
  | Call_CreateProjectDir
  | Call_ReleaseProjectDir string
  | Call_GetWerfConfig path
  | Call_GetImagesRepo string
  | Call_GetStagesRepo
  | Call_DirExists path
  | Call_GetImagesCleanupPolicies
  | Call_Cleanup "'p CleanupOptions"

text \<open>
  \<open>runCleanup\<close> returns its error and the calls it made, in order. From the \<open>defer\<close> on,
  every return releases the project's temporary directory last.
\<close>

definition runCleanup ::
  "'p collaborators \<Rightarrow> CommonCmdData \<Rightarrow> CmdData \<Rightarrow> error option \<times> 'p call list" where
  "runCleanup env ccd cd =
     (let t1 = [Call_werf_Init (TmpDir ccd) (HomeDir ccd)] in
      case werf_Init env (TmpDir ccd) (HomeDir ccd) of
        Some err \<Rightarrow> (Some (Errorf ''initialization error: %s'' [ArgError err]), t1)
      | None \<Rightarrow>
     (let t2 = t1 @ [Call_lock_Init] in
      case lock_Init env of
        Some err \<Rightarrow> (Some err, t2)
      | None \<Rightarrow>
     (let t3 = t2 @ [Call_docker_registry_Init (InsecureRepo ccd)] in
      case docker_registry_Init env (InsecureRepo ccd) of
        Some err \<Rightarrow> (Some err, t3)
      | None \<Rightarrow>
     (let t4 = t3 @ [Call_docker_Init (DockerConfig ccd)] in
      case docker_Init env (DockerConfig ccd) of
        Some err \<Rightarrow> (Some err, t4)
      | None \<Rightarrow>
     (let kubeContext = GetKubeContext env (KubeContext ccd);
          t5 = t4 @ [Call_kube_Init kubeContext (KubeConfig ccd)] in
      case kube_Init env kubeContext (KubeConfig ccd) of
        Some err \<Rightarrow> (Some (Errorf ''cannot initialize kube: %s'' [ArgError err]), t5)
      | None \<Rightarrow>
     (let t6 = t5 @ [Call_GetProjectDir] in
      case GetProjectDir env ccd of
        Inl err \<Rightarrow> (Some (Errorf ''getting project dir failed: %s'' [ArgError err]), t6)
      | Inr projectDir \<Rightarrow>
     (let t7 = t6 @ [Call_CreateProjectDir] in
      case CreateProjectDir env of
        Inl err \<Rightarrow> (Some (Errorf ''getting project tmp dir failed: %s'' [ArgError err]), t7)
      | Inr projectTmpDir \<Rightarrow>
     (let release = [Call_ReleaseProjectDir projectTmpDir];
          t8 = t7 @ [Call_GetWerfConfig projectDir] in
      case GetWerfConfig env projectDir of
        Inl err \<Rightarrow> (Some (Errorf ''bad config: %s'' [ArgError err]), t8 @ release)
      | Inr werfConfig \<Rightarrow>
     (let projectName = Meta_Project werfConfig;
          t9 = t8 @ [Call_GetImagesRepo projectName] in
      case GetImagesRepo env projectName ccd of
        Inl err \<Rightarrow> (Some err, t9 @ release)
      | Inr imagesRepo \<Rightarrow>
     (let t10 = t9 @ [Call_GetStagesRepo] in
      case GetStagesRepo env ccd of
        Inl err \<Rightarrow> (Some err, t10 @ release)
      | Inr stagesRepo \<Rightarrow>
     (let imagesNames = map Name (Images werfConfig);
          commonRepoOptions =
            \<lparr>repo_ImagesRepo = imagesRepo, repo_StagesStorage = stagesRepo,
             repo_ImagesNames = imagesNames, repo_DryRun = DryRun ccd\<rparr>;
          gitDir = projectDir @ [''.git''];
          t11 = t10 @ [Call_DirExists gitDir] in
      case DirExists env gitDir of
        Inl err \<Rightarrow> (Some err, t11 @ release)
      | Inr exist \<Rightarrow>
     (let localGitRepo = (if exist then Some \<lparr>Path = projectDir, GitDir = gitDir\<rparr> else None);
          t12 = t11 @ [Call_GetImagesCleanupPolicies] in
      case GetImagesCleanupPolicies env ccd of
        Inl err \<Rightarrow> (Some err, t12 @ release)
      | Inr policies \<Rightarrow>
     (let commonProjectOptions =
            \<lparr>ProjectName = projectName,
             CommonOptions = \<lparr>common_DryRun = DryRun ccd\<rparr>\<rparr>;
          imagesCleanupOptions =
            \<lparr>images_CommonRepoOptions = commonRepoOptions, LocalGit = localGitRepo,
             images_WithoutKube = WithoutKube cd, Policies = policies\<rparr>;
          stagesCleanupOptions =
            \<lparr>stages_CommonRepoOptions = commonRepoOptions,
             stages_CommonProjectOptions = commonProjectOptions\<rparr>;
          cleanupOptions =
            \<lparr>StagesCleanupOptions = stagesCleanupOptions,
             ImagesCleanupOptions = imagesCleanupOptions\<rparr>;
          t13 = t12 @ [Call_Cleanup cleanupOptions] in
      case Cleanup env cleanupOptions of
        Some err \<Rightarrow> (Some err, t13 @ release)
      | None \<Rightarrow> (None, t13 @ release))))))))))))))"

section \<open>The cleanup run, from the spec\<close>

text \<open>
  Modelled from the spec: \<open>cleanup.Cleanup\<close> and everything below it (package
  \<open>pkg/cleanup\<close>, the lock, the registry and storage clients, git and the cluster) is not
  among the sources. What follows is sections 3 and 4 of the spec, in its words: the Git
  Reference Resolver, the Live Workload Scanner, the Image Registry Cleaner, the Stage
  Garbage Collector and the Cleanup Coordinator. The Policy Evaluator is the pure function
  \<open>Decide(tag, snapshot, policies, now)\<close> of the spec, taken as a parameter, and so are
  the external collaborators of section 6.
\<close>

record ImageTag =
  imageName :: string
  tagName :: string
  finalStageDigest :: string
  tag_createdAt :: nat

record Stage =
  digest :: string
  parentDigest :: "string option"
  location :: string
  stage_createdAt :: nat

record GitRefSnapshot =
  branches :: "string list"
  tags :: "string list"
  commits :: "string list"

record 'p backends =
  lock_Acquire :: "string \<Rightarrow> bool"
  git_refs :: "Local \<Rightarrow> error + GitRefSnapshot"
  cluster_images :: "string list"
  Decide :: "ImageTag \<Rightarrow> GitRefSnapshot \<Rightarrow> 'p \<Rightarrow> nat \<Rightarrow> bool"
  now :: nat
  reference :: "ImageTag \<Rightarrow> string"
  registry_List :: "string \<Rightarrow> error + ImageTag list"
  registry_Delete :: "ImageTag \<Rightarrow> error option"
  Enumerate :: "error + Stage list"
  storage_DeleteStage :: "Stage \<Rightarrow> error option"

text \<open>
  Modelled from the spec: section 4.1, an absent repository yields an empty snapshot, and
  an unreadable one is an error.
\<close>

fun Snapshot :: "'p backends \<Rightarrow> Local option \<Rightarrow> error + GitRefSnapshot" where
  "Snapshot b None = Inr \<lparr>branches = [], tags = [], commits = []\<rparr>"
| "Snapshot b (Some repo) = git_refs b repo"

text \<open>Modelled from the spec: section 4.2, \<open>withoutKube\<close> gives the empty set.\<close>

definition Scan :: "'p backends \<Rightarrow> bool \<Rightarrow> string list" where
  "Scan b withoutKube = (if withoutKube then [] else cluster_images b)"

text \<open>
  Modelled from the spec: section 4.4. A tag is kept when the policies vote keep or its
  reference is live in the cluster; the rest is the delete decision, and only a real run
  issues the deletion calls. The failures of the calls are recorded one by one.
\<close>

definition keeps :: "'p backends \<Rightarrow> 'p \<Rightarrow> GitRefSnapshot \<Rightarrow> string list \<Rightarrow> ImageTag \<Rightarrow> bool" where
  "keeps b policies snapshot liveSet t =
     (Decide b t snapshot policies (now b) \<or> reference b t \<in> set liveSet)"

fun failures :: "('a \<Rightarrow> error option) \<Rightarrow> 'a list \<Rightarrow> ('a \<times> error) list" where
  "failures del [] = []"
| "failures del (x # xs) =
     (case del x of None \<Rightarrow> failures del xs | Some e \<Rightarrow> (x, e) # failures del xs)"

record clean_result =
  deleted_tags :: "ImageTag list"
  kept_tags :: "ImageTag list"
  tag_errors :: "(ImageTag \<times> error) list"
  tag_delete_calls :: "ImageTag list"

definition Clean ::
  "'p backends \<Rightarrow> bool \<Rightarrow> 'p \<Rightarrow> GitRefSnapshot \<Rightarrow> string list \<Rightarrow> ImageTag list \<Rightarrow> clean_result" where
  "Clean b dryRun policies snapshot liveSet listed =
     (let doomed = filter (\<lambda>t. \<not> keeps b policies snapshot liveSet t) listed;
          calls = (if dryRun then [] else doomed) in
      \<lparr>deleted_tags = doomed,
       kept_tags = filter (keeps b policies snapshot liveSet) listed,
       tag_errors = failures (registry_Delete b) calls,
       tag_delete_calls = calls\<rparr>)"

text \<open>
  Modelled from the spec: section 4.6. The reachable set is the parent chain of every
  surviving tag's final stage; the walker has refused a cyclic graph before, so a chain
  has at most as many links as there are stages.
\<close>

fun chain :: "Stage list \<Rightarrow> nat \<Rightarrow> string \<Rightarrow> string list" where
  "chain stages 0 d = []"
| "chain stages (Suc n) d =
     d # (case find (\<lambda>s. digest s = d) stages of
            None \<Rightarrow> []
          | Some s \<Rightarrow> (case parentDigest s of None \<Rightarrow> [] | Some parent \<Rightarrow> chain stages n parent))"

record collect_result =
  deleted_stages :: "Stage list"
  stage_errors :: "(Stage \<times> error) list"
  stage_delete_calls :: "Stage list"

definition Collect :: "'p backends \<Rightarrow> Stage list \<Rightarrow> ImageTag list \<Rightarrow> bool \<Rightarrow> collect_result" where
  "Collect b allStages survivingTags dryRun =
     (let reachable =
            concat (map (\<lambda>t. chain allStages (length allStages) (finalStageDigest t)) survivingTags);
          doomed = filter (\<lambda>s. digest s \<notin> set reachable) allStages;
          calls = (if dryRun then [] else doomed) in
      \<lparr>deleted_stages = doomed,
       stage_errors = failures (storage_DeleteStage b) calls,
       stage_delete_calls = calls\<rparr>)"

text \<open>
  Modelled from the spec: section 4.7, the coordinator as its state machine. A
  configuration is the state, whether this run holds the project's lock, and the report
  so far. A fatal condition (the lock is not to be had, the repository is unreadable,
  the registry or the storage is unreachable, the stage graph is cyclic) goes to
  \<open>Failed\<close> and releases the lock; the end of the stages phase goes to \<open>Done\<close>, or to
  \<open>Failed\<close> when every deletion of a phase failed, and releases the lock.
\<close>

datatype state = Idle | AcquiringLock | ImagesPhase | StagesPhase | Done | Failed

record config =
  state :: state
  lock_held :: bool
  images_report :: "clean_result option"
  stages_report :: "collect_result option"
  fatal :: "error option"

definition initial :: config where
  "initial = \<lparr>state = Idle, lock_held = False, images_report = None, stages_report = None,
              fatal = None\<rparr>"

fun list_all_tags :: "'p backends \<Rightarrow> string list \<Rightarrow> error + ImageTag list" where
  "list_all_tags b [] = Inr []"
| "list_all_tags b (name # names) =
     (case registry_List b name of
        Inl e \<Rightarrow> Inl e
      | Inr ts \<Rightarrow> (case list_all_tags b names of Inl e \<Rightarrow> Inl e | Inr rest \<Rightarrow> Inr (ts @ rest)))"

definition all_failed :: "'a list \<Rightarrow> ('a \<times> error) list \<Rightarrow> bool" where
  "all_failed calls errors = (calls \<noteq> [] \<and> length errors = length calls)"

definition abort :: "error \<Rightarrow> config \<Rightarrow> config" where
  "abort e c = c\<lparr>state := Failed, lock_held := False, fatal := Some e\<rparr>"

definition step :: "'p backends \<Rightarrow> 'p CleanupOptions \<Rightarrow> config \<Rightarrow> config" where
  "step b opts c =
     (let images = ImagesCleanupOptions opts; stages = StagesCleanupOptions opts in
      case state c of
        Idle \<Rightarrow> c\<lparr>state := AcquiringLock\<rparr>
      | AcquiringLock \<Rightarrow>
          (if lock_Acquire b (ProjectName (stages_CommonProjectOptions stages))
           then c\<lparr>state := ImagesPhase, lock_held := True\<rparr>
           else c\<lparr>state := Failed, fatal := Some (External ''lock unavailable'')\<rparr>)
      | ImagesPhase \<Rightarrow>
          (case Snapshot b (LocalGit images) of
             Inl e \<Rightarrow> abort e c
           | Inr snapshot \<Rightarrow>
               (case list_all_tags b (repo_ImagesNames (images_CommonRepoOptions images)) of
                  Inl e \<Rightarrow> abort e c
                | Inr listed \<Rightarrow>
                    c\<lparr>state := StagesPhase,
                      images_report :=
                        Some (Clean b (repo_DryRun (images_CommonRepoOptions images))
                                (Policies images) snapshot (Scan b (images_WithoutKube images))
                                listed)\<rparr>))
      | StagesPhase \<Rightarrow>
          (case Enumerate b of
             Inl e \<Rightarrow> abort e c
           | Inr allStages \<Rightarrow>
               (let survivingTags = (case images_report c of None \<Rightarrow> [] | Some r \<Rightarrow> kept_tags r);
                    collected = Collect b allStages survivingTags
                      (common_DryRun (CommonOptions (stages_CommonProjectOptions stages)));
                    escalate =
                      ((case images_report c of
                          None \<Rightarrow> False
                        | Some r \<Rightarrow> all_failed (tag_delete_calls r) (tag_errors r)) \<or>
                       all_failed (stage_delete_calls collected) (stage_errors collected)) in
                c\<lparr>state := (if escalate then Failed else Done), lock_held := False,
                  stages_report := Some collected\<rparr>))
      | Done \<Rightarrow> c
      | Failed \<Rightarrow> c)"

definition Run :: "'p backends \<Rightarrow> 'p CleanupOptions \<Rightarrow> config" where
  "Run b opts = step b opts (step b opts (step b opts (step b opts initial)))"

text \<open>The decision classification of a run: which tags and stages it keeps or deletes.\<close>

definition classification :: "config \<Rightarrow> (ImageTag list \<times> ImageTag list) option \<times> Stage list option" where
  "classification c =
     (map_option (\<lambda>r. (deleted_tags r, kept_tags r)) (images_report c),
      map_option deleted_stages (stages_report c))"

definition deletion_calls :: "config \<Rightarrow> ImageTag list \<times> Stage list" where
  "deletion_calls c =
     ((case images_report c of None \<Rightarrow> [] | Some r \<Rightarrow> tag_delete_calls r),
      (case stages_report c of None \<Rightarrow> [] | Some r \<Rightarrow> stage_delete_calls r))"

section \<open>What a call reads and writes\<close>

text \<open>
  The operations a call on project directory \<open>P\<close> and target directory \<open>T\<close> may issue:
  it reads files and lists directories under \<open>P\<close> only, writes files under \<open>T\<close> only,
  makes directories under \<open>T\<close> or on the way to \<open>T\<close> (\<open>MkdirAll\<close> creates the missing
  parents of the target), and looks at the status of paths in one of these places.
\<close>

fun ev_ok :: "path \<Rightarrow> path \<Rightarrow> event \<Rightarrow> bool" where
  "ev_ok P T (EvStat p) = (prefix P p \<or> prefix T p \<or> prefix p T)"
| "ev_ok P T (EvReadFile p) = prefix P p"
| "ev_ok P T (EvReadDir p) = prefix P p"
| "ev_ok P T (EvMkdir p) = (prefix T p \<or> prefix p T)"
| "ev_ok P T (EvWriteFile p) = prefix T p"

text \<open>
  The step from world \<open>w\<close> to world \<open>w'\<close> stays within these bounds: the log grew by
  allowed operations, and a path outside \<open>T\<close> is what it was, or is a directory on the
  way to \<open>T\<close> that was missing.
\<close>

definition within :: "path \<Rightarrow> path \<Rightarrow> world \<Rightarrow> world \<Rightarrow> bool" where
  "within P T w w' =
     ((\<exists>new. events w' = new @ events w \<and> list_all (ev_ok P T) new) \<and>
      (\<forall>q. \<not> prefix T q \<longrightarrow>
         lookup w' q = lookup w q \<or>
         (lookup w q = None \<and> lookup w' q = Some Dir \<and> prefix q T)))"

definition visits_within :: "path \<Rightarrow> path \<Rightarrow> path \<Rightarrow> visitor \<Rightarrow> bool" where
  "visits_within P T root f =
     (\<forall>q info w r w'. prefix root q \<longrightarrow> f q info w = (r, w') \<longrightarrow> within P T w w')"

text \<open>
  What the walk writes for a secret file with bytes \<open>data\<close>, and the statement that in
  world \<open>w\<close> the files of \<open>w0\<close> at the relative paths \<open>X\<close> under the secret directory \<open>S\<close>
  have their decoded counterparts under \<open>T/decoded-secret\<close>.
\<close>

definition decoded :: "'s option \<Rightarrow> bytes \<Rightarrow> bytes" where
  "decoded secret data = (if secret = None then [] else TrimRightSpace data)"

definition decoded_at :: "'s option \<Rightarrow> path \<Rightarrow> path \<Rightarrow> world \<Rightarrow> world \<Rightarrow> path set \<Rightarrow> bool" where
  "decoded_at secret S T w0 w X =
     (\<forall>x\<in>X. \<forall>data. lookup w0 (S @ x) = Some (File data) \<longrightarrow>
        lookup w (T @ [DecodedSecretDirName] @ x) = Some (File (decoded secret data)))"

text \<open>The relative paths in the tree of \<open>w0\<close> that hangs at \<open>S/r\<close>.\<close>

definition below :: "world \<Rightarrow> path \<Rightarrow> path \<Rightarrow> path set" where
  "below w0 S r = {r @ rel | rel. \<forall>i<length rel. lookup w0 (S @ r @ take i rel) = Some Dir}"

text \<open>The length of the longest path of a world: fuel beyond it is enough.\<close>

definition deepest :: "world \<Rightarrow> nat" where
  "deepest w = Max (set (0 # map (\<lambda>(q, n). length q) (files w)))"

section \<open>Example inputs\<close>

definition marshal_ok :: "unit \<Rightarrow> error + bytes" where
  "marshal_ok v = Inr ''a: 1''"

definition gosyntax_unit :: "unit \<Rightarrow> string" where
  "gosyntax_unit v = ''map[string]interface {}{}''"

definition chart_t :: DappChart where
  "chart_t = \<lparr>ChartDir = [''t''], Values = [], Set = [], moreValuesCounter = 0\<rparr>"



text \<open>A world where \<open>t/more-values\<close> is a file, so that no values file can be written.\<close>

definition world_blocked :: world where
  "world_blocked =
     \<lparr>files = [([''t''], Dir), ([''t'', ''more-values''], File []), ([''s.yaml''], File ''k: v'')],
      events = []\<rparr>"

text \<open>Collaborators that all succeed, on a project directory without \<open>.git\<close>.\<close>

definition env_ok :: "unit collaborators" where
  "env_ok =
     \<lparr>werf_Init = (\<lambda>tmp home. None), lock_Init = None,
      docker_registry_Init = (\<lambda>insecure. None), docker_Init = (\<lambda>config. None),
      GetKubeContext = (\<lambda>c. c), kube_Init = (\<lambda>context config. None),
      GetProjectDir = (\<lambda>d. Inr [''project'']), CreateProjectDir = Inr ''tmp-1'',
      GetWerfConfig = (\<lambda>dir. Inr \<lparr>Meta_Project = ''demo'', Images = [\<lparr>Name = ''web''\<rparr>]\<rparr>),
      GetImagesRepo = (\<lambda>project d. Inr ''registry/demo''), GetStagesRepo = (\<lambda>d. Inr '':local''),
      DirExists = (\<lambda>dir. Inr False), GetImagesCleanupPolicies = (\<lambda>d. Inr ()),
      Cleanup = (\<lambda>opts. None)\<rparr>"

text \<open>The same, but the check for \<open>.git\<close> itself fails.\<close>

definition env_git_error :: "unit collaborators" where
  "env_git_error = env_ok\<lparr>DirExists := (\<lambda>dir. Inl (External ''permission denied''))\<rparr>"

text \<open>No \<open>.git\<close>, and the cleanup policies cannot be read.\<close>

definition env_policies_error :: "unit collaborators" where
  "env_policies_error =
     env_ok\<lparr>GetImagesCleanupPolicies := (\<lambda>d. Inl (External ''bad policies''))\<rparr>"

text \<open>No \<open>.git\<close>, and \<open>cleanup.Cleanup\<close> itself fails.\<close>

definition env_cleanup_error :: "unit collaborators" where
  "env_cleanup_error = env_ok\<lparr>Cleanup := (\<lambda>opts. Some (External ''registry unreachable''))\<rparr>"

definition flags_dry :: CommonCmdData where
  "flags_dry =
     \<lparr>TmpDir = [], HomeDir = [], InsecureRepo = False, DockerConfig = [], KubeContext = [],
      KubeConfig = [], DryRun = True\<rparr>"

definition flags_without_kube :: CmdData where
  "flags_without_kube = \<lparr>WithoutKube = True\<rparr>"

text \<open>The options \<open>runCleanup\<close> builds from these.\<close>

definition options_demo :: "unit CleanupOptions" where
  "options_demo =
     (let repo = \<lparr>repo_ImagesRepo = ''registry/demo'', repo_StagesStorage = '':local'',
                  repo_ImagesNames = [''web''], repo_DryRun = True\<rparr> in
      \<lparr>StagesCleanupOptions =
         \<lparr>stages_CommonRepoOptions = repo,
          stages_CommonProjectOptions =
            \<lparr>ProjectName = ''demo'', CommonOptions = \<lparr>common_DryRun = True\<rparr>\<rparr>\<rparr>,
       ImagesCleanupOptions =
         \<lparr>images_CommonRepoOptions = repo, LocalGit = None, images_WithoutKube = True,
          Policies = ()\<rparr>\<rparr>)"

text \<open>
  Backends with two tags of one image, of which the policies keep the first, and three
  stages: the kept tag's stage, its parent, and the stage of the other tag. Every
  deletion succeeds.
\<close>

definition tag_new :: ImageTag where
  "tag_new = \<lparr>imageName = ''web'', tagName = ''v2'', finalStageDigest = ''s2'', tag_createdAt = 20\<rparr>"

definition tag_old :: ImageTag where
  "tag_old = \<lparr>imageName = ''web'', tagName = ''v1'', finalStageDigest = ''s3'', tag_createdAt = 10\<rparr>"

definition stages_demo :: "Stage list" where
  "stages_demo =
     [\<lparr>digest = ''s1'', parentDigest = None, location = '':local'', stage_createdAt = 1\<rparr>,
      \<lparr>digest = ''s2'', parentDigest = Some ''s1'', location = '':local'', stage_createdAt = 2\<rparr>,
      \<lparr>digest = ''s3'', parentDigest = Some ''s1'', location = '':local'', stage_createdAt = 3\<rparr>]"

definition backends_demo :: "unit backends" where
  "backends_demo =
     \<lparr>lock_Acquire = (\<lambda>key. True), git_refs = (\<lambda>repo. Inl (External ''no repository'')),
      cluster_images = [], Decide = (\<lambda>t snapshot policies n. tagName t = ''v2''), now = 30,
      reference = (\<lambda>t. imageName t @ '':'' @ tagName t),
      registry_List = (\<lambda>name. Inr [tag_new, tag_old]), registry_Delete = (\<lambda>t. None),
      Enumerate = Inr stages_demo, storage_DeleteStage = (\<lambda>s. None)\<rparr>"

text \<open>The same backends with a registry that cannot be reached.\<close>

definition backends_unreachable :: "unit backends" where
  "backends_unreachable =
     backends_demo\<lparr>registry_List := (\<lambda>name. Inl (External ''registry unreachable''))\<rparr>"

text \<open>The same backends with a stage graph that the walker refuses.\<close>

definition backends_cyclic :: "unit backends" where
  "backends_cyclic = backends_demo\<lparr>Enumerate := Inl (External ''cycle in parent edges'')\<rparr>"

text \<open>The options of a run with all three \<open>DryRun\<close> fields set to one value.\<close>

definition with_DryRun :: "bool \<Rightarrow> 'p CleanupOptions \<Rightarrow> 'p CleanupOptions" where
  "with_DryRun d opts =
     \<lparr>StagesCleanupOptions =
        \<lparr>stages_CommonRepoOptions =
           (stages_CommonRepoOptions (StagesCleanupOptions opts))\<lparr>repo_DryRun := d\<rparr>,
         stages_CommonProjectOptions =
           \<lparr>ProjectName = ProjectName (stages_CommonProjectOptions (StagesCleanupOptions opts)),
            CommonOptions = \<lparr>common_DryRun = d\<rparr>\<rparr>\<rparr>,
      ImagesCleanupOptions =
        (ImagesCleanupOptions opts)
          \<lparr>images_CommonRepoOptions :=
             (images_CommonRepoOptions (ImagesCleanupOptions opts))\<lparr>repo_DryRun := d\<rparr>\<rparr>\<rparr>"

text \<open>
  A project with a chart, a secret values file and two secret files, one of them in a
  subdirectory and both ending in white space; no target directory yet.
\<close>

definition world_project :: world where
  "world_project =
     \<lparr>files =
        [([''p''], Dir),
         ([''p'', ''.helm''], Dir),
         ([''p'', ''.helm'', ''templates''], Dir),
         ([''p'', ''.helm'', ''templates'', ''app.yaml''], File ''kind: Pod''),
         ([''p'', ''secret''], Dir),
         ([''p'', ''secret'', ''k''], File (''key  '' @ [CHR 0x0A])),
         ([''p'', ''secret'', ''d''], Dir),
         ([''p'', ''secret'', ''d'', ''c''], File (''cert'' @ [CHR 0xC2, CHR 0xA0])),
         ([''p'', ''secret-values.yaml''], File ''a: b'')],
      events = []\<rparr>"

text \<open>
  A project whose secret directory already holds a \<open>decoded-secret\<close> tree, for a call
  whose target is the secret directory itself.
\<close>

definition world_overlap :: world where
  "world_overlap =
     \<lparr>files =
        [([''p''], Dir),
         ([''p'', ''.helm''], Dir),
         ([''p'', ''.helm'', ''templates''], Dir),
         ([''p'', ''secret''], Dir),
         ([''p'', ''secret'', ''a''], File ''y ''),
         ([''p'', ''secret'', ''decoded-secret''], Dir),
         ([''p'', ''secret'', ''decoded-secret'', ''a''], File ''x''),
         ([''p'', ''secret'', ''decoded-secret'', ''zzz''], Dir),
         ([''p'', ''secret'', ''decoded-secret'', ''zzz'', ''f''], File ''u ''),
         ([''p'', ''secret'', ''zzz''], Dir),
         ([''p'', ''secret'', ''zzz'', ''f''], File ''v'')],
      events = []\<rparr>"

section \<open>Properties\<close>

subsection \<open>Auxiliary facts\<close>





lemma lookup_put:
  "lookup (put p n w) q = (if q = [] then Some Dir else if q = p then Some n else lookup w q)"
  by (simp add: lookup_def put_def)

lemma lookup_emit [simp]: "lookup (emit e w) q = lookup w q"
  by (simp add: lookup_def emit_def)

lemma WriteFile_ok:
  "ioutil_WriteFile w p d = (None, w') \<Longrightarrow> lookup w' p = Some (File d)"
  by (auto simp: ioutil_WriteFile_def lookup_put split: option.splits node.splits if_splits)

lemma SetValues_error:
  "fst (SetValues m g v chart w) \<noteq> None \<Longrightarrow> fst (snd (SetValues m g v chart w)) = chart"
  by (auto simp: SetValues_def Let_def split: prod.splits option.splits sum.splits)

lemma SetSecretValuesFile_error:
  "fst (SetSecretValuesFile p s chart w) \<noteq> None \<Longrightarrow>
   fst (snd (SetSecretValuesFile p s chart w)) = chart"
  by (auto simp: SetSecretValuesFile_def Let_def split: prod.splits option.splits sum.splits)











lemma runCleanup_options:
  "Call_Cleanup opts \<in> set (snd (runCleanup env ccd cd)) \<Longrightarrow>
   repo_DryRun (images_CommonRepoOptions (ImagesCleanupOptions opts)) = DryRun ccd \<and>
   repo_DryRun (stages_CommonRepoOptions (StagesCleanupOptions opts)) = DryRun ccd \<and>
   common_DryRun (CommonOptions (stages_CommonProjectOptions (StagesCleanupOptions opts))) =
     DryRun ccd \<and>
   images_WithoutKube (ImagesCleanupOptions opts) = WithoutKube cd"
  by (auto simp: runCleanup_def Let_def split: option.splits sum.splits)

lemma runCleanup_demo:
  "runCleanup env_ok flags_dry flags_without_kube =
     (None,
      [Call_werf_Init [] [], Call_lock_Init, Call_docker_registry_Init False,
       Call_docker_Init [], Call_kube_Init [] [], Call_GetProjectDir, Call_CreateProjectDir,
       Call_GetWerfConfig [''project''], Call_GetImagesRepo ''demo'', Call_GetStagesRepo,
       Call_DirExists [''project'', ''.git''], Call_GetImagesCleanupPolicies,
       Call_Cleanup options_demo, Call_ReleaseProjectDir ''tmp-1''])"
  by (simp add: runCleanup_def env_ok_def flags_dry_def flags_without_kube_def options_demo_def
      Let_def)

lemma runCleanup_git_error:
  "runCleanup env_git_error flags_dry flags_without_kube =
     (Some (External ''permission denied''),
      [Call_werf_Init [] [], Call_lock_Init, Call_docker_registry_Init False,
       Call_docker_Init [], Call_kube_Init [] [], Call_GetProjectDir, Call_CreateProjectDir,
       Call_GetWerfConfig [''project''], Call_GetImagesRepo ''demo'', Call_GetStagesRepo,
       Call_DirExists [''project'', ''.git''], Call_ReleaseProjectDir ''tmp-1''])"
  by (simp add: runCleanup_def env_git_error_def env_ok_def flags_dry_def
      flags_without_kube_def Let_def)

lemma no_git_LocalGit:
  "Call_DirExists g \<in> set (snd (runCleanup env ccd cd)) \<Longrightarrow> DirExists env g = Inr False \<Longrightarrow>
   Call_Cleanup opts \<in> set (snd (runCleanup env ccd cd)) \<Longrightarrow>
   LocalGit (ImagesCleanupOptions opts) = None"
  by (auto simp: runCleanup_def Let_def split: option.splits sum.splits)

lemma no_git_proceeds:
  "Call_DirExists g \<in> set (snd (runCleanup env ccd cd)) \<Longrightarrow> DirExists env g = Inr False \<Longrightarrow>
   GetImagesCleanupPolicies env ccd = Inr policies \<Longrightarrow>
   \<exists>opts. Call_Cleanup opts \<in> set (snd (runCleanup env ccd cd)) \<and>
      fst (runCleanup env ccd cd) = Cleanup env opts"
  by (auto simp: runCleanup_def Let_def split: option.splits sum.splits)

lemma git_check_error:
  "Call_DirExists g \<in> set (snd (runCleanup env ccd cd)) \<Longrightarrow> DirExists env g = Inl e \<Longrightarrow>
   fst (runCleanup env ccd cd) = Some e \<and>
   (\<forall>opts. Call_Cleanup opts \<notin> set (snd (runCleanup env ccd cd)))"
  by (auto simp: runCleanup_def Let_def split: option.splits sum.splits)

lemma git_present:
  "Call_DirExists g \<in> set (snd (runCleanup env ccd cd)) \<Longrightarrow> DirExists env g = Inr True \<Longrightarrow>
   Call_Cleanup opts \<in> set (snd (runCleanup env ccd cd)) \<Longrightarrow>
   LocalGit (ImagesCleanupOptions opts) = Some \<lparr>Path = butlast g, GitDir = g\<rparr>"
  by (auto simp: runCleanup_def Let_def split: option.splits sum.splits)

lemma step_lock:
  "(lock_held c \<longleftrightarrow> state c \<in> {ImagesPhase, StagesPhase}) \<Longrightarrow>
   (lock_held (step b opts c) \<longleftrightarrow> state (step b opts c) \<in> {ImagesPhase, StagesPhase})"
  by (cases "state c") (auto simp: step_def Let_def abort_def split: sum.splits)

lemma steps_lock:
  "lock_held ((step b opts ^^ k) initial) \<longleftrightarrow>
   state ((step b opts ^^ k) initial) \<in> {ImagesPhase, StagesPhase}"
proof (induction k)
  case 0
  show ?case by (simp add: initial_def)
next
  case (Suc k)
  from step_lock [OF Suc] show ?case by simp
qed

lemma Run_terminal: "state (Run b opts) \<in> {Done, Failed}"
  by (auto simp: Run_def step_def Let_def abort_def initial_def split: sum.splits)

lemma Run_funpow: "Run b opts = (step b opts ^^ 4) initial"
  by (simp add: Run_def eval_nat_numeral)

lemma classification_dry:
  "classification (Run b (with_DryRun True opts)) =
   classification (Run b (with_DryRun False opts))"
  by (auto simp: Run_def step_def Let_def abort_def initial_def classification_def
      with_DryRun_def Clean_def Collect_def split: sum.splits)

lemma calls_dry: "deletion_calls (Run b (with_DryRun True opts)) = ([], [])"
  by (auto simp: Run_def step_def Let_def abort_def initial_def deletion_calls_def
      with_DryRun_def Clean_def Collect_def split: sum.splits)

lemma calls_real:
  "deletion_calls (Run b (with_DryRun False opts)) =
     ((case fst (classification (Run b (with_DryRun False opts))) of
         None \<Rightarrow> [] | Some (doomed, kept) \<Rightarrow> doomed),
      (case snd (classification (Run b (with_DryRun False opts))) of
         None \<Rightarrow> [] | Some doomed \<Rightarrow> doomed))"
  by (auto simp: Run_def step_def Let_def abort_def initial_def deletion_calls_def
      classification_def with_DryRun_def Clean_def Collect_def split: sum.splits)

lemma with_DryRun_id:
  "repo_DryRun (images_CommonRepoOptions (ImagesCleanupOptions opts)) = d \<Longrightarrow>
   repo_DryRun (stages_CommonRepoOptions (StagesCleanupOptions opts)) = d \<Longrightarrow>
   common_DryRun (CommonOptions (stages_CommonProjectOptions (StagesCleanupOptions opts))) = d \<Longrightarrow>
   with_DryRun d opts = opts"
  by (simp add: with_DryRun_def)

lemma own_flag: "BoolVarP n s d u \<in> set NewCmd \<Longrightarrow> n = ''without-kube'' \<and> d = False"
  by (auto simp: NewCmd_def)

lemma within_refl: "within P T w w"
  by (auto simp: within_def)

lemma within_trans: "within P T a b \<Longrightarrow> within P T b c \<Longrightarrow> within P T a c"
  unfolding within_def
  apply (elim conjE exE)
  apply (intro conjI)
  subgoal for new new' by (rule exI [of _ "new' @ new"]) simp
  subgoal by (metis option.distinct(1))
  done

lemma within_emit: "ev_ok P T e \<Longrightarrow> within P T w (emit e w)"
  by (auto simp: within_def emit_def lookup_def)

lemma within_put: "prefix T p \<Longrightarrow> within P T w (put p n w)"
  by (auto simp: within_def put_def lookup_def)

lemma within_Stat:
  "os_Stat w p = (r, w') \<Longrightarrow> prefix P p \<or> prefix T p \<or> prefix p T \<Longrightarrow> within P T w w'"
  by (auto simp: os_Stat_def within_emit split: option.splits)

lemma within_ReadFile:
  "ioutil_ReadFile w p = (r, w') \<Longrightarrow> prefix P p \<Longrightarrow> within P T w w'"
  by (auto simp: ioutil_ReadFile_def within_emit split: option.splits node.splits)

lemma within_WriteFile:
  "ioutil_WriteFile w p d = (r, w') \<Longrightarrow> prefix T p \<Longrightarrow> within P T w w'"
  by (auto simp: ioutil_WriteFile_def within_emit within_put
      intro!: within_trans [OF within_emit within_put]
      split: option.splits node.splits)

lemma within_file_Write:
  "file_Write w p d = (r, w') \<Longrightarrow> prefix T p \<Longrightarrow> within P T w w'"
  by (auto simp: file_Write_def intro!: within_trans [OF within_emit within_put])

lemma within_MkdirAll:
  "os_MkdirAll w p = (r, w') \<Longrightarrow> prefix T p \<or> prefix p T \<Longrightarrow> within P T w w'"
proof (induction w p arbitrary: r w' rule: os_MkdirAll.induct)
  case (1 w p)
  have st: "within P T w (emit (EvStat p) w)"
    using "1.prems"(2) by (auto intro: within_emit)
  show ?case
  proof (cases "lookup w p")
    case (Some n)
    with "1.prems"(1) st show ?thesis
      by (subst (asm) os_MkdirAll.simps) (auto split: node.splits)
  next
    case None
    then have ne: "p \<noteq> []" by (auto simp: lookup_def)
    obtain r1 w1 where rec: "os_MkdirAll (emit (EvStat p) w) (butlast p) = (r1, w1)"
      by (cases "os_MkdirAll (emit (EvStat p) w) (butlast p)") auto
    have pb: "prefix T (butlast p) \<or> prefix (butlast p) T"
      using "1.prems"(2) ne
      by (metis append_butlast_last_id prefix_order.order_trans prefix_snoc prefixeq_butlast)
    from "1.IH" [OF None rec pb] have w1: "within P T (emit (EvStat p) w) w1" .
    show ?thesis
    proof (cases r1)
      case (Some e)
      with "1.prems"(1) None rec have "w' = w1"
        by (subst (asm) os_MkdirAll.simps) simp
      with st w1 show ?thesis by (blast intro: within_trans)
    next
      case None2: None
      with "1.prems"(1) None rec have w': "w' = put p Dir (emit (EvMkdir p) w1)"
        by (subst (asm) os_MkdirAll.simps) simp
      have a: "within P T w w1" using st w1 by (rule within_trans)
      from a obtain new where new: "events w1 = new @ events w" "list_all (ev_ok P T) new"
        unfolding within_def by blast
      have ev: "events w' = (EvMkdir p # new) @ events w \<and> list_all (ev_ok P T) (EvMkdir p # new)"
        using new "1.prems"(2) by (simp add: w' put_def emit_def)
      have fr: "lookup w' q = lookup w q \<or>
          (lookup w q = None \<and> lookup w' q = Some Dir \<and> prefix q T)" if "\<not> prefix T q" for q
      proof (cases "q = p")
        case True
        with that "1.prems"(2) None ne show ?thesis
          by (simp add: w' lookup_put)
      next
        case False
        then have "lookup w' q = lookup w1 q"
          by (simp add: w' lookup_put) (simp add: lookup_def)
        with a that show ?thesis
          unfolding within_def by metis
      qed
      from ev fr show ?thesis
        unfolding within_def by blast
    qed
  qed
qed

lemma within_traverse_both:
  "(visits_within P T root f \<longrightarrow> prefix P root \<longrightarrow> prefix root p \<longrightarrow>
      (\<forall>r w'. traverse k f p w = Some (r, w') \<longrightarrow> within P T w w'))"
  "(visits_within P T root f \<longrightarrow> prefix P root \<longrightarrow> prefix root p \<longrightarrow>
      (\<forall>r w'. traverse_names k f p names w = Some (r, w') \<longrightarrow> within P T w w'))"
proof (induction k f p w and k f p names w rule: traverse_traverse_names.induct)
  case (1 f p w)
  show ?case by simp
next
  case (2 k f p w)
  show ?case
  proof (intro impI allI)
    fix r w'
    assume vis: "visits_within P T root f" and P: "prefix P root" and p: "prefix root p"
      and run: "traverse (Suc k) f p w = Some (r, w')"
    obtain st w1 where st: "os_Stat w p = (st, w1)"
      by (cases "os_Stat w p") auto
    from p P have Pp: "prefix P p" by (rule prefix_order.order_trans [rotated])
    with st have w1: "within P T w w1" by (auto intro: within_Stat)
    show "within P T w w'"
    proof (cases st)
      case (Inl e)
      with run st have "f p (Inl e) w1 = (r, w')" by simp
      with vis p have "within P T w1 w'" unfolding visits_within_def by blast
      with w1 show ?thesis by (rule within_trans)
    next
      case (Inr n)
      show ?thesis
      proof (cases n)
        case (File d)
        with run st Inr have "f p (Inr (File d)) w1 = (r, w')" by simp
        with vis p have "within P T w1 w'" unfolding visits_within_def by blast
        with w1 show ?thesis by (rule within_trans)
      next
        case Dir
        obtain r2 w2 where v: "f p (Inr Dir) w1 = (r2, w2)"
          by (cases "f p (Inr Dir) w1") auto
        with vis p have w2: "within P T w1 w2" unfolding visits_within_def by blast
        show ?thesis
        proof (cases r2)
          case (Some e)
          with run st Inr Dir v have "w' = w2" by simp
          with w1 w2 show ?thesis by (blast intro: within_trans)
        next
          case None
          with run st Inr Dir v
          have rest: "traverse_names k f p (readDirNames w2 p) (emit (EvReadDir p) w2) = Some (r, w')"
            by simp
          have "within P T w2 (emit (EvReadDir p) w2)"
            using Pp by (auto intro: within_emit)
          moreover from "2.IH" [OF st [symmetric] Inr Dir v [symmetric] None] vis P p rest
          have "within P T (emit (EvReadDir p) w2) w'"
            by blast
          ultimately show ?thesis
            using w1 w2 by (blast intro: within_trans)
        qed
      qed
    qed
  qed
next
  case (3 k f p w)
  show ?case by (simp add: within_refl)
next
  case (4 k f p name names w)
  show ?case
  proof (intro impI allI)
    fix r w'
    assume vis: "visits_within P T root f" and P: "prefix P root" and p: "prefix root p"
      and run: "traverse_names k f p (name # names) w = Some (r, w')"
    then obtain r1 w1 where one: "traverse k f (p @ [name]) w = Some (r1, w1)"
      by (cases "traverse k f (p @ [name]) w") auto
    have p': "prefix root (p @ [name])" using p by (simp add: prefix_def) auto
    from "4.IH"(1) vis P p' one have w1: "within P T w w1" by blast
    show "within P T w w'"
    proof (cases r1)
      case (Some e)
      with run one have "w' = w1" by simp
      with w1 show ?thesis by simp
    next
      case None
      with run one have rest: "traverse_names k f p names w1 = Some (r, w')" by simp
      from "4.IH"(2) [OF one refl None] vis P p rest have "within P T w1 w'" by blast
      with w1 show ?thesis by (rule within_trans)
    qed
  qed
qed

lemma butlast_under: "prefix T (butlast (T @ x))  \<or> prefix (butlast (T @ x)) T"
  by (cases x rule: rev_cases) (simp_all add: prefixeq_butlast butlast_append)

lemma copy_visit_within: "prefix P src \<Longrightarrow> visits_within P T src (copy_visit src T)"
  unfolding visits_within_def
proof (intro allI impI)
  fix q info w r w'
  assume P: "prefix P src" and q: "prefix src q" and run: "copy_visit src T q info w = (r, w')"
  let ?d = "T @ drop (length src) q"
  from P q have Pq: "prefix P q" by (rule prefix_order.order_trans)
  show "within P T w w'"
  proof (cases info)
    case (Inl e)
    with run show ?thesis by (simp add: copy_visit_def within_refl)
  next
    case (Inr n)
    show ?thesis
    proof (cases n)
      case Dir
      with run Inr have "os_MkdirAll w ?d = (r, w')" by (simp add: copy_visit_def)
      then show ?thesis by (rule within_MkdirAll) simp
    next
      case (File x)
      obtain r1 w1 where m: "os_MkdirAll w (butlast ?d) = (r1, w1)"
        by (cases "os_MkdirAll w (butlast ?d)") auto
      from within_MkdirAll [OF m butlast_under] have w1: "within P T w w1" .
      show ?thesis
      proof (cases r1)
        case (Some e)
        with run Inr File m have "w' = w1" by (simp add: copy_visit_def)
        with w1 show ?thesis by simp
      next
        case None
        obtain r2 w2 where c: "ioutil_WriteFile w1 ?d [] = (r2, w2)"
          by (cases "ioutil_WriteFile w1 ?d []") auto
        from within_WriteFile [OF c] have w2: "within P T w1 w2" by simp
        show ?thesis
        proof (cases r2)
          case (Some e)
          with run Inr File m None c have "w' = w2" by (simp add: copy_visit_def)
          with w1 w2 show ?thesis by (blast intro: within_trans)
        next
          case None2: None
          obtain r3 w3 where rd: "ioutil_ReadFile w2 q = (r3, w3)"
            by (cases "ioutil_ReadFile w2 q") auto
          from within_ReadFile [OF rd Pq] have w3: "within P T w2 w3" .
          show ?thesis
          proof (cases r3)
            case (Inl e)
            with run Inr File m None c None2 rd have "w' = w3" by (simp add: copy_visit_def)
            with w1 w2 w3 show ?thesis by (blast intro: within_trans)
          next
            case (Inr data)
            with run \<open>info = Inr n\<close> File m None c None2 rd
            have "ioutil_WriteFile w3 ?d data = (r, w')" by (simp add: copy_visit_def)
            from within_WriteFile [OF this] have "within P T w3 w'" by simp
            with w1 w2 w3 show ?thesis by (blast intro: within_trans)
          qed
        qed
      qed
    qed
  qed
qed

lemma copy_Copy_within:
  "copy_Copy k (P @ x) T w = Some (r, w') \<Longrightarrow> within P T w w'"
  using within_traverse_both(1) [of P T "P @ x" "copy_visit (P @ x) T" "P @ x" k w]
    copy_visit_within [of P "P @ x" T]
  by (simp add: copy_Copy_def)

lemma newPath_parent:
  "prefix T (butlast (T @ [d] @ x))"
  by (simp add: butlast_append)

lemma walkFn_within:
  "prefix P S \<Longrightarrow> visits_within P T S (walkFn S T secret)"
  unfolding visits_within_def
proof (intro allI impI)
  fix q info w r w'
  assume P: "prefix P S" and q: "prefix S q" and run: "walkFn S T secret q info w = (r, w')"
  let ?n = "T @ [DecodedSecretDirName] @ TrimPrefix q S"
  from P q have Pq: "prefix P q" by (rule prefix_order.order_trans)
  have par: "prefix T (butlast ?n) \<or> prefix (butlast ?n) T"
    using newPath_parent [of T DecodedSecretDirName "TrimPrefix q S"] by simp
  have tgt: "prefix T ?n" by simp
  have wr: "within P T a c"
    if "os_MkdirAll a (butlast ?n) = (r1, b)" "r1 = None \<longrightarrow> ioutil_WriteFile b ?n d = (r2, c)"
       "r1 \<noteq> None \<longrightarrow> c = b" for a b c r1 r2 d
  proof -
    from within_MkdirAll [OF that(1) par] have "within P T a b" .
    moreover have "within P T b c"
      using that(2,3) within_WriteFile [where w = b and p = ?n and d = d and r = r2 and w' = c
          and P = P and T = T] tgt
      by (cases r1) (auto simp: within_refl)
    ultimately show ?thesis by (rule within_trans)
  qed
  show "within P T w w'"
  proof (cases info)
    case (Inl e)
    with run show ?thesis by (simp add: walkFn_def within_refl)
  next
    case (Inr n)
    show ?thesis
    proof (cases n)
      case Dir
      with run Inr show ?thesis by (simp add: walkFn_def within_refl)
    next
      case (File x)
      show ?thesis
      proof (cases secret)
        case None
        obtain r1 b where m: "os_MkdirAll w (butlast ?n) = (r1, b)"
          by (cases "os_MkdirAll w (butlast ?n)") auto
        obtain r2 c where c: "ioutil_WriteFile b ?n [] = (r2, c)"
          by (cases "ioutil_WriteFile b ?n []") auto
        from run Inr File None m c have "w' = (if r1 = None then c else b)"
          by (auto simp: walkFn_def Let_def split: option.splits)
        with wr [OF m, of "[]" r2 "if r1 = None then c else b"] c show ?thesis
          by simp
      next
        case (Some sec)
        obtain r0 w0 where rd: "ioutil_ReadFile w q = (r0, w0)"
          by (cases "ioutil_ReadFile w q") auto
        from within_ReadFile [OF rd Pq] have w0: "within P T w w0" .
        show ?thesis
        proof (cases r0)
          case (Inl e)
          with run \<open>info = Inr n\<close> File Some rd have "w' = w0"
            by (simp add: walkFn_def Let_def)
          with w0 show ?thesis by simp
        next
          case (Inr data)
          obtain r1 b where m: "os_MkdirAll w0 (butlast ?n) = (r1, b)"
            by (cases "os_MkdirAll w0 (butlast ?n)") auto
          obtain r2 c where c: "ioutil_WriteFile b ?n (TrimRightSpace data) = (r2, c)"
            by (cases "ioutil_WriteFile b ?n (TrimRightSpace data)") auto
          from run \<open>info = Inr n\<close> File Some rd Inr m c
          have "w' = (if r1 = None then c else b)"
            by (auto simp: walkFn_def Let_def decodeSecret_def split: option.splits)
          with wr [OF m, of "TrimRightSpace data" r2 "if r1 = None then c else b"] c
          have "within P T w0 w'" by simp
          with w0 show ?thesis by (rule within_trans)
        qed
      qed
    qed
  qed
qed

lemma SetSecretValuesFile_within:
  "SetSecretValuesFile p secret chart w = (r, chart', w') \<Longrightarrow> prefix P p \<Longrightarrow>
   ChartDir chart = T \<Longrightarrow> within P T w w'"
proof -
  assume run: "SetSecretValuesFile p secret chart w = (r, chart', w')" and P: "prefix P p"
    and T: "ChartDir chart = T"
  let ?n = "moreValuesPath chart"
  have tgt: "prefix T ?n" using T by (simp add: moreValuesPath_def)
  have par: "prefix T (butlast ?n) \<or> prefix (butlast ?n) T"
    using T by (simp add: moreValuesPath_def butlast_append)
  obtain r0 w0 where rd: "ioutil_ReadFile w p = (r0, w0)"
    by (cases "ioutil_ReadFile w p") auto
  from within_ReadFile [OF rd P] have w0: "within P T w w0" .
  show ?thesis
  proof (cases r0)
    case (Inl e)
    with run rd have "w' = w0" by (simp add: SetSecretValuesFile_def)
    with w0 show ?thesis by simp
  next
    case (Inr data)
    obtain r1 b where m: "os_MkdirAll w0 (butlast ?n) = (r1, b)"
      by (cases "os_MkdirAll w0 (butlast ?n)") auto
    from within_MkdirAll [OF m par] have b: "within P T w0 b" .
    show ?thesis
    proof (cases r1)
      case (Some e)
      with run rd Inr m have "w' = b"
        by (simp add: SetSecretValuesFile_def decodeSecretValues_def Let_def)
      with w0 b show ?thesis by (blast intro: within_trans)
    next
      case None
      obtain r2 c where c: "ioutil_WriteFile b ?n data = (r2, c)"
        by (cases "ioutil_WriteFile b ?n data") auto
      from within_WriteFile [OF c tgt] have c': "within P T b c" .
      from run rd Inr m None c have "w' = c"
        by (auto simp: SetSecretValuesFile_def decodeSecretValues_def Let_def split: option.splits)
      with w0 b c' show ?thesis by (blast intro: within_trans)
    qed
  qed
qed

lemma PrepareDappChart_within:
  assumes run: "PrepareDappChart fuel tpl P T opts w = Some (r, w')"
  shows "within P T w w'"
proof -
  let ?chart = "\<lparr>ChartDir = T, Values = [], Set = [], moreValuesCounter = 0\<rparr>"
  let ?tplPath = "T @ [''templates'', ''_dapp_helpers.tpl'']"
  let ?S = "P @ [SecretDirName]"
  from run obtain r1 w1 where cp: "copy_Copy fuel (P @ [''.helm'']) T w = Some (r1, w1)"
    by (cases "copy_Copy fuel (P @ [''.helm'']) T w") (auto simp: PrepareDappChart_def)
  from copy_Copy_within [OF cp] have w1: "within P T w w1" .
  show ?thesis
  proof (cases r1)
    case (Some e)
    with run cp have "w' = w1" by (simp add: PrepareDappChart_def)
    with w1 show ?thesis by simp
  next
    case None
    obtain r2 w2 where cr: "os_Create w1 ?tplPath = (r2, w2)"
      by (cases "os_Create w1 ?tplPath") auto
    then have "within P T w1 w2"
      unfolding os_Create_def by (rule within_WriteFile) simp
    with w1 have w2: "within P T w w2" by (rule within_trans)
    show ?thesis
    proof (cases r2)
      case (Some e)
      with run cp None cr have "w' = w2" by (simp add: PrepareDappChart_def)
      with w2 show ?thesis by simp
    next
      case None2: None
      obtain w3 where fw: "file_Write w2 ?tplPath tpl = (None, w3)"
        by (simp add: file_Write_def)
      then have "within P T w2 w3" by (rule within_file_Write) simp
      with w2 have w3: "within P T w w3" by (rule within_trans)
      obtain st w4 where st: "os_Stat w3 (P @ [DefaultSecretValuesFile]) = (st, w4)"
        by (cases "os_Stat w3 (P @ [DefaultSecretValuesFile])") auto
      then have "within P T w3 w4" by (rule within_Stat) simp
      with w3 have w4: "within P T w w4" by (rule within_trans)
      obtain r5 chart w5 where ss:
        "(if \<not> os_IsNotExist st
          then SetSecretValuesFile (P @ [DefaultSecretValuesFile]) (Secret opts) ?chart w4
          else (None, ?chart, w4)) = (r5, chart, w5)"
        by (metis prod_cases3)
      have "within P T w4 w5"
      proof (cases "os_IsNotExist st")
        case True
        with ss show ?thesis by (simp add: within_refl)
      next
        case False
        with ss have "SetSecretValuesFile (P @ [DefaultSecretValuesFile]) (Secret opts) ?chart w4 =
            (r5, chart, w5)" by simp
        then show ?thesis by (rule SetSecretValuesFile_within) simp_all
      qed
      with w4 have w5: "within P T w w5" by (rule within_trans)
      show ?thesis
      proof (cases r5)
        case (Some e)
        with run cp None cr None2 fw st ss have "w' = w5"
          by (simp add: PrepareDappChart_def Let_def)
        with w5 show ?thesis by simp
      next
        case None5: None
        obtain st' w6 where st': "os_Stat w5 ?S = (st', w6)"
          by (cases "os_Stat w5 ?S") auto
        then have "within P T w5 w6" by (rule within_Stat) simp
        with w5 have w6: "within P T w w6" by (rule within_trans)
        show ?thesis
        proof (cases "os_IsNotExist st'")
          case True
          with run cp None cr None2 fw st ss None5 st' have "w' = w6"
            by (simp add: PrepareDappChart_def Let_def)
          with w6 show ?thesis by simp
        next
          case False
          with run cp None cr None2 fw st ss None5 st'
          obtain r7 where wk: "filepath_Walk fuel ?S (walkFn ?S T (Secret opts)) w6 = Some (r7, w')"
            by (auto simp: PrepareDappChart_def Let_def split: option.splits)
          from within_traverse_both(1) [of P T ?S "walkFn ?S T (Secret opts)" ?S fuel w6]
            walkFn_within [of P ?S T "Secret opts"] wk
          have "within P T w6 w'"
            by (simp add: filepath_Walk_def)
          with w6 show ?thesis by (rule within_trans)
        qed
      qed
    qed
  qed
qed

lemma within_project_unchanged:
  assumes "within P T w w'" and "\<not> prefix P T" and "\<not> prefix T P" and "prefix P q"
  shows "lookup w' q = lookup w q"
proof -
  from assms have "\<not> prefix T q"
    by (metis prefix_same_cases)
  moreover from assms have "\<not> prefix q T"
    by (metis prefix_order.order_trans)
  ultimately show ?thesis
    using assms(1) unfolding within_def by blast
qed

lemma lookup_root [simp]: "lookup w [] = Some Dir"
  by (simp add: lookup_def)

lemma readDirNames_member:
  assumes "lookup w (p @ [n]) \<noteq> None"
  shows "n \<in> set (readDirNames w p)"
proof -
  from assms obtain node where "map_of (files w) (p @ [n]) = Some node"
    by (auto simp: lookup_def)
  then have "(p @ [n], node) \<in> set (files w)"
    by (rule map_of_SomeD)
  then have "(\<lambda>(q, n). last q) (p @ [n], node) \<in>
      (\<lambda>(q, n). last q) ` {x \<in> set (files w). (\<lambda>(q, n). q \<noteq> [] \<and> butlast q = p) x}"
    by (intro imageI) simp
  then show ?thesis
    by (simp add: readDirNames_def)
qed

lemma MkdirAll_keeps:
  "os_MkdirAll w p = (r, w') \<Longrightarrow> lookup w q = Some n \<Longrightarrow> lookup w' q = Some n"
proof (induction w p arbitrary: r w' rule: os_MkdirAll.induct)
  case (1 w p)
  show ?case
  proof (cases "lookup w p")
    case (Some m)
    with "1.prems" show ?thesis
      by (subst (asm) os_MkdirAll.simps) (auto split: node.splits)
  next
    case None
    obtain r1 w1 where rec: "os_MkdirAll (emit (EvStat p) w) (butlast p) = (r1, w1)"
      by (cases "os_MkdirAll (emit (EvStat p) w) (butlast p)") auto
    from "1.IH" [OF None rec] "1.prems"(2) have keep: "lookup w1 q = Some n" by simp
    from None "1.prems"(2) have "q \<noteq> p" by auto
    with "1.prems"(1) None rec keep show ?thesis
      by (subst (asm) os_MkdirAll.simps) (auto simp: lookup_put split: option.splits)
  qed
qed

lemma WriteFile_other:
  "ioutil_WriteFile w p d = (r, w') \<Longrightarrow> q \<noteq> p \<Longrightarrow> lookup w' q = lookup w q"
  by (auto simp: ioutil_WriteFile_def lookup_put split: option.splits node.splits)

lemma ReadFile_same: "ioutil_ReadFile w p = (r, w') \<Longrightarrow> lookup w' q = lookup w q"
  by (auto simp: ioutil_ReadFile_def split: option.splits node.splits)

lemma ReadFile_data:
  "ioutil_ReadFile w p = (Inr data, w') \<Longrightarrow> lookup w p = Some (File data)"
  by (auto simp: ioutil_ReadFile_def split: option.splits node.splits)

lemma walkFn_decoded:
  assumes same: "\<forall>q. prefix S q \<longrightarrow> lookup w q = lookup w0 q"
    and run: "walkFn S T secret (S @ y) info w = (r, w')"
    and X: "decoded_at secret S T w0 w X"
  shows "decoded_at secret S T w0 w' X"
    and "r = None \<Longrightarrow> info = Inr (File d) \<Longrightarrow> decoded_at secret S T w0 w' {y}"
proof -
  let ?n = "\<lambda>x. T @ [DecodedSecretDirName] @ x"
  have tp: "TrimPrefix (S @ y) S = y" by (simp add: TrimPrefix_def)
  have src: "lookup w (S @ y) = lookup w0 (S @ y)" using same by simp
  have step: "decoded_at secret S T w0 c X \<and> (r2 = None \<longrightarrow> decoded_at secret S T w0 c {y})"
    if m: "os_MkdirAll a (butlast (?n y)) = (None, b)"
      and wr: "ioutil_WriteFile b (?n y) content = (r2, c)"
      and a: "decoded_at secret S T w0 a X"
      and content: "\<forall>data. lookup w0 (S @ y) = Some (File data) \<longrightarrow> content = decoded secret data"
    for a b c r2 content
  proof -
    have b: "decoded_at secret S T w0 b X"
      using a MkdirAll_keeps [OF m] unfolding decoded_at_def by blast
    have "lookup c (?n x) = Some (File (decoded secret data))"
      if "x \<in> X" "lookup w0 (S @ x) = Some (File data)" for x data
    proof (cases "x = y")
      case True
      from b that have old: "lookup b (?n x) = Some (File (decoded secret data))"
        unfolding decoded_at_def by blast
      show ?thesis
      proof (cases r2)
        case None
        with wr have "lookup c (?n y) = Some (File content)" by (simp add: WriteFile_ok)
        with True that content show ?thesis by simp
      next
        case (Some e)
        with wr have "lookup c (?n x) = lookup b (?n x)"
          by (auto simp: ioutil_WriteFile_def split: option.splits node.splits)
        with old show ?thesis by simp
      qed
    next
      case False
      then have "?n x \<noteq> ?n y" by simp
      from WriteFile_other [OF wr this] b that show ?thesis
        unfolding decoded_at_def by simp
    qed
    moreover have "lookup c (?n y) = Some (File (decoded secret data))"
      if "r2 = None" "lookup w0 (S @ y) = Some (File data)" for data
      using that wr content by (simp add: WriteFile_ok)
    ultimately show ?thesis
      unfolding decoded_at_def by blast
  qed
  have fail: "decoded_at secret S T w0 b X"
    if "os_MkdirAll a (butlast (?n y)) = (r1, b)" "decoded_at secret S T w0 a X" for a b r1
    using that MkdirAll_keeps [OF that(1)] unfolding decoded_at_def by blast
  have both: "decoded_at secret S T w0 w' X \<and>
      (r = None \<longrightarrow> info = Inr (File d) \<longrightarrow> decoded_at secret S T w0 w' {y})"
  proof (cases info)
    case (Inl e)
    with run X show ?thesis by (simp add: walkFn_def)
  next
    case (Inr n)
    show ?thesis
    proof (cases n)
      case Dir
      with run Inr X show ?thesis by (simp add: walkFn_def)
    next
      case (File x)
      show ?thesis
      proof (cases secret)
        case None
        obtain r1 b where m: "os_MkdirAll w (butlast (?n y)) = (r1, b)"
          by (cases "os_MkdirAll w (butlast (?n y))") auto
        show ?thesis
        proof (cases r1)
          case (Some e)
          with run Inr File None m tp have "w' = b" "r \<noteq> None"
            by (auto simp: walkFn_def Let_def)
          with fail [OF m X] show ?thesis by auto
        next
          case None1: None
          obtain r2 c where wr: "ioutil_WriteFile b (?n y) [] = (r2, c)"
            by (cases "ioutil_WriteFile b (?n y) []") auto
          from run Inr File None m None1 wr tp have "w' = c" "r = None \<longrightarrow> r2 = None"
            by (auto simp: walkFn_def Let_def split: option.splits)
          with step [OF m [unfolded None1] wr X] None show ?thesis
            by (simp add: decoded_def)
        qed
      next
        case (Some sec)
        obtain r0 a where rd: "ioutil_ReadFile w (S @ y) = (r0, a)"
          by (cases "ioutil_ReadFile w (S @ y)") auto
        have a: "decoded_at secret S T w0 a X"
          using X ReadFile_same [OF rd] unfolding decoded_at_def by simp
        show ?thesis
        proof (cases r0)
          case (Inl e)
          with run Inr File Some rd tp have "w' = a" "r \<noteq> None"
            by (auto simp: walkFn_def Let_def)
          with a show ?thesis by auto
        next
          case rdata: (Inr data)
          with rd have "lookup w (S @ y) = Some (File data)" by (simp add: ReadFile_data)
          with src have content: "\<forall>data'. lookup w0 (S @ y) = Some (File data') \<longrightarrow>
              TrimRightSpace data = decoded secret data'"
            using Some by (auto simp: decoded_def)
          obtain r1 b where m: "os_MkdirAll a (butlast (?n y)) = (r1, b)"
            by (cases "os_MkdirAll a (butlast (?n y))") auto
          show ?thesis
          proof (cases r1)
            case Some1: (Some e)
            with run Inr File Some rd rdata m tp have "w' = b" "r \<noteq> None"
              by (auto simp: walkFn_def Let_def decodeSecret_def)
            with fail [OF m a] show ?thesis by auto
          next
            case None1: None
            obtain r2 c where wr: "ioutil_WriteFile b (?n y) (TrimRightSpace data) = (r2, c)"
              by (cases "ioutil_WriteFile b (?n y) (TrimRightSpace data)") auto
            from run Inr File Some rd rdata m None1 wr tp
            have "w' = c" "r = None \<longrightarrow> r2 = None"
              by (auto simp: walkFn_def Let_def decodeSecret_def split: option.splits)
            with step [OF m [unfolded None1] wr a content] show ?thesis
              by simp
          qed
        qed
      qed
    qed
  qed
  from both show "decoded_at secret S T w0 w' X" by simp
  from both show "r = None \<Longrightarrow> info = Inr (File d) \<Longrightarrow> decoded_at secret S T w0 w' {y}"
    by simp
qed

lemma decoded_at_Un:
  "decoded_at secret S T w0 w (A \<union> B) =
     (decoded_at secret S T w0 w A \<and> decoded_at secret S T w0 w B)"
  unfolding decoded_at_def by blast

lemma decoded_at_emit [simp]:
  "decoded_at secret S T w0 (emit e w) X = decoded_at secret S T w0 w X"
  unfolding decoded_at_def by simp

lemma os_Stat_result:
  "os_Stat w p = (st, w1) \<Longrightarrow>
   w1 = emit (EvStat p) w \<and> (\<forall>n. st = Inr n \<longrightarrow> lookup w p = Some n)"
  by (auto simp: os_Stat_def split: option.splits)

lemma below_file:
  assumes "x \<in> below w0 S r" and "lookup w0 (S @ x) = Some (File data)"
    and "lookup w0 (S @ r) = Some (File d)"
  shows "x = r"
proof -
  from assms(1) obtain rel where x: "x = r @ rel"
    and dirs: "\<forall>i<length rel. lookup w0 (S @ r @ take i rel) = Some Dir"
    unfolding below_def by blast
  show ?thesis
  proof (cases rel)
    case Nil
    with x show ?thesis by simp
  next
    case (Cons n rel')
    with dirs have "lookup w0 (S @ r @ take 0 rel) = Some Dir" by blast
    with assms(3) show ?thesis by simp
  qed
qed

lemma below_dir:
  assumes "x \<in> below w0 S r" and "lookup w0 (S @ x) = Some (File data)"
    and "lookup w0 (S @ r) = Some Dir"
  shows "\<exists>n. lookup w0 (S @ r @ [n]) \<noteq> None \<and> x \<in> below w0 S (r @ [n])"
proof -
  from assms(1) obtain rel where x: "x = r @ rel"
    and dirs: "\<forall>i<length rel. lookup w0 (S @ r @ take i rel) = Some Dir"
    unfolding below_def by blast
  show ?thesis
  proof (cases rel)
    case Nil
    with x assms(2,3) show ?thesis by simp
  next
    case (Cons n rel')
    have there: "lookup w0 (S @ r @ [n]) \<noteq> None"
    proof (cases rel')
      case Nil
      with Cons x assms(2) show ?thesis by simp
    next
      case (Cons m rel'')
      with \<open>rel = n # rel'\<close> dirs have "lookup w0 (S @ r @ take 1 rel) = Some Dir"
        by (metis One_nat_def length_Cons lessI less_Suc_eq_0_disj)
      with \<open>rel = n # rel'\<close> show ?thesis by simp
    qed
    have "lookup w0 (S @ (r @ [n]) @ take i rel') = Some Dir" if "i < length rel'" for i
    proof -
      from that Cons have "Suc i < length rel" by simp
      with dirs have "lookup w0 (S @ r @ take (Suc i) rel) = Some Dir" by blast
      with Cons show ?thesis by simp
    qed
    with x Cons have "x \<in> below w0 S (r @ [n])"
      unfolding below_def by auto
    with there show ?thesis by blast
  qed
qed

lemma walk_decodes_both:
  "(f = walkFn S T secret \<longrightarrow> prefix P S \<longrightarrow> \<not> prefix P T \<longrightarrow> \<not> prefix T P \<longrightarrow>
      (\<forall>r X w'. p = S @ r \<longrightarrow> within P T w0 w \<longrightarrow> decoded_at secret S T w0 w X \<longrightarrow>
         traverse k f p w = Some (None, w') \<longrightarrow>
         decoded_at secret S T w0 w' (X \<union> below w0 S r)))"
  "(f = walkFn S T secret \<longrightarrow> prefix P S \<longrightarrow> \<not> prefix P T \<longrightarrow> \<not> prefix T P \<longrightarrow>
      (\<forall>r X w'. p = S @ r \<longrightarrow> within P T w0 w \<longrightarrow> decoded_at secret S T w0 w X \<longrightarrow>
         traverse_names k f p names w = Some (None, w') \<longrightarrow>
         decoded_at secret S T w0 w' (X \<union> (\<Union>n\<in>set names. below w0 S (r @ [n])))))"
proof (induction k f p w and k f p names w rule: traverse_traverse_names.induct)
  case (1 f p w)
  show ?case by simp
next
  case (2 k f p w)
  show ?case
  proof (intro impI allI)
    fix r X w'
    assume f: "f = walkFn S T secret" and PS: "prefix P S" and no: "\<not> prefix P T" "\<not> prefix T P"
      and p: "p = S @ r" and inv: "within P T w0 w" and X: "decoded_at secret S T w0 w X"
      and run: "traverse (Suc k) f p w = Some (None, w')"
    obtain st w1 where st: "os_Stat w p = (st, w1)"
      by (cases "os_Stat w p") auto
    from os_Stat_result [OF st] have w1: "w1 = emit (EvStat p) w"
      and node: "\<And>n. st = Inr n \<Longrightarrow> lookup w p = Some n"
      by simp_all
    have same: "lookup w q = lookup w0 q" if "prefix S q" for q
    proof -
      from PS that have "prefix P q" by (rule prefix_order.order_trans)
      with within_project_unchanged [OF inv no] show ?thesis by simp
    qed
    then have same1: "\<forall>q. prefix S q \<longrightarrow> lookup w1 q = lookup w0 q"
      by (simp add: w1)
    have X1: "decoded_at secret S T w0 w1 X" using X by (simp add: w1)
    show "decoded_at secret S T w0 w' (X \<union> below w0 S r)"
    proof (cases st)
      case (Inl e)
      with run st f show ?thesis by (simp add: walkFn_def)
    next
      case (Inr n)
      show ?thesis
      proof (cases n)
        case (File d)
        with run st Inr f p have v: "walkFn S T secret (S @ r) (Inr (File d)) w1 = (None, w')"
          by simp
        from walkFn_decoded [OF same1 v X1]
        have a: "decoded_at secret S T w0 w' X" and b: "decoded_at secret S T w0 w' {r}"
          by simp_all
        from node [OF Inr] File p same [of "S @ r"] have "lookup w0 (S @ r) = Some (File d)"
          by simp
        with b have "decoded_at secret S T w0 w' (below w0 S r)"
          unfolding decoded_at_def using below_file by blast
        with a show ?thesis by (simp add: decoded_at_Un)
      next
        case Dir
        have v: "f p (Inr Dir) w1 = (None, w1)"
          by (simp add: f walkFn_def)
        with run st Inr Dir
        have rest: "traverse_names k f p (readDirNames w1 p) (emit (EvReadDir p) w1) = Some (None, w')"
          by simp
        have inv': "within P T w0 (emit (EvReadDir p) w1)"
        proof -
          from PS p have "prefix P p" by (auto elim: prefix_order.order_trans)
          then have "within P T w (emit (EvReadDir p) (emit (EvStat p) w))"
            by (auto intro!: within_trans [OF within_emit within_emit])
          with inv show ?thesis unfolding w1 by (rule within_trans)
        qed
        from "2.IH" [OF st [symmetric] Inr Dir v [symmetric] refl] f PS no p inv' X1 rest
        have all: "decoded_at secret S T w0 w'
            (X \<union> (\<Union>n\<in>set (readDirNames w1 p). below w0 S (r @ [n])))"
          by simp
        from node [OF Inr] Dir p same [of "S @ r"] have dir: "lookup w0 (S @ r) = Some Dir"
          by simp
        have "lookup w' (T @ [DecodedSecretDirName] @ x) = Some (File (decoded secret data))"
          if x: "x \<in> below w0 S r" and isfile: "lookup w0 (S @ x) = Some (File data)" for x data
        proof -
          from below_dir [OF x isfile dir] obtain n
            where n: "lookup w0 (S @ r @ [n]) \<noteq> None" and xn: "x \<in> below w0 S (r @ [n])"
            by blast
          from n same1 have "lookup w1 (p @ [n]) \<noteq> None" by (simp add: p)
          then have "n \<in> set (readDirNames w1 p)" by (rule readDirNames_member)
          with xn all isfile show ?thesis
            unfolding decoded_at_def by blast
        qed
        then have "decoded_at secret S T w0 w' (below w0 S r)"
          unfolding decoded_at_def by blast
        with all show ?thesis by (simp add: decoded_at_Un)
      qed
    qed
  qed
next
  case (3 k f p w)
  show ?case by simp
next
  case (4 k f p name names w)
  show ?case
  proof (intro impI allI)
    fix r X w'
    assume f: "f = walkFn S T secret" and PS: "prefix P S" and no: "\<not> prefix P T" "\<not> prefix T P"
      and p: "p = S @ r" and inv: "within P T w0 w" and X: "decoded_at secret S T w0 w X"
      and run: "traverse_names k f p (name # names) w = Some (None, w')"
    from run obtain w1 where one: "traverse k f (p @ [name]) w = Some (None, w1)"
      and rest: "traverse_names k f p names w1 = Some (None, w')"
      by (auto split: option.splits prod.splits)
    from "4.IH"(1) f PS no p inv X one
    have X1: "decoded_at secret S T w0 w1 (X \<union> below w0 S (r @ [name]))"
      by simp
    have pre: "prefix S (p @ [name])" by (simp add: p)
    have vis: "visits_within P T S f" unfolding f by (rule walkFn_within [OF PS])
    from within_traverse_both(1) [of P T S f "p @ [name]" k w] vis PS pre one
    have "within P T w w1" by blast
    with inv have inv1: "within P T w0 w1" by (rule within_trans)
    from "4.IH"(2) [OF one refl refl] f PS no p inv1 X1 rest
    have "decoded_at secret S T w0 w'
        ((X \<union> below w0 S (r @ [name])) \<union> (\<Union>n\<in>set names. below w0 S (r @ [n])))"
      by simp
    then show "decoded_at secret S T w0 w'
        (X \<union> (\<Union>n\<in>set (name # names). below w0 S (r @ [n])))"
      by (simp add: decoded_at_Un)
  qed
qed

lemma PrepareDappChart_success:
  assumes run: "PrepareDappChart fuel tpl P T opts w = Some (Inr chart, w')"
  shows "\<exists>w5 st w6. within P T w w5 \<and> os_Stat w5 (P @ [SecretDirName]) = (st, w6) \<and>
      (if os_IsNotExist st then w' = w6
       else filepath_Walk fuel (P @ [SecretDirName])
              (walkFn (P @ [SecretDirName]) T (Secret opts)) w6 = Some (None, w'))"
proof -
  let ?chart = "\<lparr>ChartDir = T, Values = [], Set = [], moreValuesCounter = 0\<rparr>"
  let ?tplPath = "T @ [''templates'', ''_dapp_helpers.tpl'']"
  let ?S = "P @ [SecretDirName]"
  let ?dsv = "P @ [DefaultSecretValuesFile]"
  obtain st w4 where st: "os_Stat (snd (file_Write (snd (os_Create (snd (the
      (copy_Copy fuel (P @ [''.helm'']) T w))) ?tplPath)) ?tplPath tpl)) ?dsv = (st, w4)"
    by (metis surj_pair)
  from run obtain w1 w2 w3 w5 st' w6 where
    cp: "copy_Copy fuel (P @ [''.helm'']) T w = Some (None, w1)"
    and cr: "os_Create w1 ?tplPath = (None, w2)"
    and fw: "file_Write w2 ?tplPath tpl = (None, w3)"
    and st3: "os_Stat w3 ?dsv = (st, w4)"
    and ss: "(if \<not> os_IsNotExist st
          then SetSecretValuesFile ?dsv (Secret opts) ?chart w4
          else (None, ?chart, w4)) = (None, chart, w5)"
    and st': "os_Stat w5 ?S = (st', w6)"
    and wk: "if os_IsNotExist st' then w' = w6
       else filepath_Walk fuel ?S (walkFn ?S T (Secret opts)) w6 = Some (None, w')"
    using st
    by (auto simp: PrepareDappChart_def Let_def file_Write_def
        split: option.splits prod.splits if_splits)
  from copy_Copy_within [OF cp] have "within P T w w1" .
  moreover from cr have "within P T w1 w2"
    unfolding os_Create_def by (rule within_WriteFile) simp
  moreover from fw have "within P T w2 w3" by (rule within_file_Write) simp
  moreover from st3 have "within P T w3 w4" by (rule within_Stat) simp
  moreover have "within P T w4 w5"
  proof (cases "os_IsNotExist st")
    case True
    with ss show ?thesis by (simp add: within_refl)
  next
    case False
    with ss have "SetSecretValuesFile ?dsv (Secret opts) ?chart w4 = (None, chart, w5)" by simp
    then show ?thesis by (rule SetSecretValuesFile_within) simp_all
  qed
  ultimately have "within P T w w5" by (blast intro: within_trans)
  with st' wk show ?thesis by blast
qed

lemma PrepareDappChart_decodes:
  assumes run: "PrepareDappChart fuel tpl P T opts w = Some (Inr chart, w')"
    and no: "\<not> prefix P T" "\<not> prefix T P"
    and isfile: "lookup w (P @ [SecretDirName] @ rel) = Some (File data)"
    and dirs: "\<forall>i<length rel. lookup w (P @ [SecretDirName] @ take i rel) = Some Dir"
  shows "lookup w' (T @ [DecodedSecretDirName] @ rel) = Some (File (decoded (Secret opts) data))"
proof -
  let ?S = "P @ [SecretDirName]"
  from PrepareDappChart_success [OF run] obtain w5 st w6
    where w5: "within P T w w5" and st: "os_Stat w5 ?S = (st, w6)"
      and wk: "if os_IsNotExist st then w' = w6
        else filepath_Walk fuel ?S (walkFn ?S T (Secret opts)) w6 = Some (None, w')"
    by blast
  have PS: "prefix P ?S" by simp
  have "lookup w ?S \<noteq> None"
  proof (cases rel)
    case Nil
    with isfile show ?thesis by simp
  next
    case (Cons n rel')
    with dirs have "lookup w (P @ [SecretDirName] @ take 0 rel) = Some Dir" by blast
    then show ?thesis by simp
  qed
  with within_project_unchanged [OF w5 no PS] have "lookup w5 ?S \<noteq> None" by simp
  with st have "\<not> os_IsNotExist st"
    by (auto simp: os_Stat_def split: option.splits)
  with wk have walk: "traverse fuel (walkFn ?S T (Secret opts)) ?S w6 = Some (None, w')"
    by (simp add: filepath_Walk_def)
  from st have "within P T w5 w6" by (rule within_Stat) simp
  with w5 have w6: "within P T w w6" by (rule within_trans)
  have "decoded_at (Secret opts) ?S T w w6 {}"
    by (simp add: decoded_at_def)
  with walk_decodes_both(1) [of "walkFn ?S T (Secret opts)" ?S T "Secret opts" P ?S w w6 fuel]
    PS no w6 walk
  have "decoded_at (Secret opts) ?S T w w' ({} \<union> below w ?S [])"
    by (metis append_Nil2)
  moreover from dirs have "rel \<in> below w ?S []"
    unfolding below_def by simp
  ultimately show ?thesis
    using isfile unfolding decoded_at_def by simp
qed

lemma deepest_bound:
  assumes "lookup w q \<noteq> None"
  shows "length q \<le> deepest w"
proof (cases "q = []")
  case True
  then show ?thesis by simp
next
  case False
  with assms obtain node where "map_of (files w) q = Some node"
    by (auto simp: lookup_def)
  then have "(q, node) \<in> set (files w)" by (rule map_of_SomeD)
  then have "length q \<in> set (0 # map (\<lambda>(q, n). length q) (files w))"
    by force
  then show ?thesis
    unfolding deepest_def by (intro Max_ge) simp_all
qed

lemma readDirNames_sound:
  assumes "n \<in> set (readDirNames w p)"
  shows "lookup w (p @ [n]) \<noteq> None"
proof -
  from assms obtain q node where "(q, node) \<in> set (files w)" "q \<noteq> []" "butlast q = p" "n = last q"
    by (auto simp: readDirNames_def)
  then have "(p @ [n], node) \<in> set (files w)" by auto
  then have "map_of (files w) (p @ [n]) \<noteq> None"
    by (metis fst_conv image_eqI map_of_eq_None_iff)
  then show ?thesis by (simp add: lookup_def)
qed

lemma traverse_returns_both:
  "(visits_within P T R f \<longrightarrow> prefix P R \<longrightarrow> \<not> prefix P T \<longrightarrow> \<not> prefix T P \<longrightarrow> prefix R p \<longrightarrow>
      within P T w0 w \<longrightarrow> deepest w0 < k + length p \<longrightarrow> 0 < k \<longrightarrow> traverse k f p w \<noteq> None)"
  "(visits_within P T R f \<longrightarrow> prefix P R \<longrightarrow> \<not> prefix P T \<longrightarrow> \<not> prefix T P \<longrightarrow> prefix R p \<longrightarrow>
      within P T w0 w \<longrightarrow> deepest w0 < k + length p + 1 \<longrightarrow>
      (\<forall>n\<in>set names. lookup w0 (p @ [n]) \<noteq> None) \<longrightarrow> traverse_names k f p names w \<noteq> None)"
proof (induction k f p w and k f p names w rule: traverse_traverse_names.induct)
  case (1 f p w)
  show ?case by simp
next
  case (2 k f p w)
  show ?case
  proof (intro impI)
    assume vis: "visits_within P T R f" and PR: "prefix P R" and no: "\<not> prefix P T" "\<not> prefix T P"
      and p: "prefix R p" and inv: "within P T w0 w" and deep: "deepest w0 < Suc k + length p"
    obtain st w1 where st: "os_Stat w p = (st, w1)"
      by (cases "os_Stat w p") auto
    from PR p have Pp: "prefix P p" by (rule prefix_order.order_trans)
    with st have "within P T w w1" by (auto intro: within_Stat)
    with inv have w1: "within P T w0 w1" by (rule within_trans)
    show "traverse (Suc k) f p w \<noteq> None"
    proof (cases st)
      case (Inl e)
      with st show ?thesis by simp
    next
      case (Inr n)
      show ?thesis
      proof (cases n)
        case (File d)
        with st Inr show ?thesis by simp
      next
        case Dir
        obtain r2 w2 where v: "f p (Inr Dir) w1 = (r2, w2)"
          by (cases "f p (Inr Dir) w1") auto
        with vis p have "within P T w1 w2" unfolding visits_within_def by blast
        with w1 have w2: "within P T w0 w2" by (rule within_trans)
        show ?thesis
        proof (cases r2)
          case (Some e)
          with st Inr Dir v show ?thesis by simp
        next
          case None
          have "within P T w2 (emit (EvReadDir p) w2)"
            using Pp by (auto intro: within_emit)
          with w2 have inv': "within P T w0 (emit (EvReadDir p) w2)" by (rule within_trans)
          have names: "\<forall>n\<in>set (readDirNames w2 p). lookup w0 (p @ [n]) \<noteq> None"
          proof
            fix n assume "n \<in> set (readDirNames w2 p)"
            then have "lookup w2 (p @ [n]) \<noteq> None" by (rule readDirNames_sound)
            moreover from Pp have "prefix P (p @ [n])" by (simp add: prefix_def) auto
            ultimately show "lookup w0 (p @ [n]) \<noteq> None"
              using within_project_unchanged [OF w2 no] by simp
          qed
          from "2.IH" [OF st [symmetric] Inr Dir v [symmetric] None] vis PR no p inv' deep names
          have "traverse_names k f p (readDirNames w2 p) (emit (EvReadDir p) w2) \<noteq> None"
            by simp
          with st Inr Dir v None show ?thesis by simp
        qed
      qed
    qed
  qed
next
  case (3 k f p w)
  show ?case by simp
next
  case (4 k f p name names w)
  show ?case
  proof (intro impI)
    assume vis: "visits_within P T R f" and PR: "prefix P R" and no: "\<not> prefix P T" "\<not> prefix T P"
      and p: "prefix R p" and inv: "within P T w0 w" and deep: "deepest w0 < k + length p + 1"
      and names: "\<forall>n\<in>set (name # names). lookup w0 (p @ [n]) \<noteq> None"
    from names have "lookup w0 (p @ [name]) \<noteq> None" by simp
    from deepest_bound [OF this] deep have k: "0 < k" and deep': "deepest w0 < k + length (p @ [name])"
      by simp_all
    have p': "prefix R (p @ [name])" using p by (simp add: prefix_def) auto
    from "4.IH"(1) vis PR no p' inv deep' k
    obtain r1 w1 where one: "traverse k f (p @ [name]) w = Some (r1, w1)"
      by (cases "traverse k f (p @ [name]) w") auto
    from within_traverse_both(1) [of P T R f "p @ [name]" k w] vis PR p' one
    have "within P T w w1" by blast
    with inv have inv1: "within P T w0 w1" by (rule within_trans)
    show "traverse_names k f p (name # names) w \<noteq> None"
    proof (cases r1)
      case (Some e)
      with one show ?thesis by simp
    next
      case None
      from "4.IH"(2) [OF one refl None] vis PR no p inv1 deep names
      have "traverse_names k f p names w1 \<noteq> None" by simp
      with one None show ?thesis by simp
    qed
  qed
qed

lemma PrepareDappChart_returns:
  assumes no: "\<not> prefix P T" "\<not> prefix T P" and fuel: "deepest w < fuel"
  shows "PrepareDappChart fuel tpl P T opts w \<noteq> None"
proof
  assume none: "PrepareDappChart fuel tpl P T opts w = None"
  let ?src = "P @ [''.helm'']"
  let ?S = "P @ [SecretDirName]"
  let ?chart = "\<lparr>ChartDir = T, Values = [], Set = [], moreValuesCounter = 0\<rparr>"
  let ?tplPath = "T @ [''templates'', ''_dapp_helpers.tpl'']"
  let ?dsv = "P @ [DefaultSecretValuesFile]"
  from traverse_returns_both(1) [of P T ?src "copy_visit ?src T" ?src w w fuel]
    copy_visit_within [of P ?src T] no fuel
  have "copy_Copy fuel ?src T w \<noteq> None"
    by (simp add: copy_Copy_def within_refl)
  then obtain r1 w1 where cp: "copy_Copy fuel ?src T w = Some (r1, w1)"
    by auto
  from copy_Copy_within [OF cp] have w1: "within P T w w1" .
  obtain st w4 where st: "os_Stat (snd (file_Write (snd (os_Create w1 ?tplPath)) ?tplPath tpl)) ?dsv
      = (st, w4)"
    by (metis surj_pair)
  from none cp obtain w2 w3 chart w5 st' w6 where
    cr: "os_Create w1 ?tplPath = (None, w2)"
    and fw: "file_Write w2 ?tplPath tpl = (None, w3)"
    and st3: "os_Stat w3 ?dsv = (st, w4)"
    and ss: "(if \<not> os_IsNotExist st
          then SetSecretValuesFile ?dsv (Secret opts) ?chart w4
          else (None, ?chart, w4)) = (None, chart, w5)"
    and st': "os_Stat w5 ?S = (st', w6)"
    and wk: "filepath_Walk fuel ?S (walkFn ?S T (Secret opts)) w6 = None"
    using st
    by (auto simp: PrepareDappChart_def Let_def file_Write_def
        split: option.splits prod.splits if_splits)
  from cr have "within P T w1 w2"
    unfolding os_Create_def by (rule within_WriteFile) simp
  moreover from fw have "within P T w2 w3" by (rule within_file_Write) simp
  moreover from st3 have "within P T w3 w4" by (rule within_Stat) simp
  moreover have "within P T w4 w5"
  proof (cases "os_IsNotExist st")
    case True
    with ss show ?thesis by (simp add: within_refl)
  next
    case False
    with ss have "SetSecretValuesFile ?dsv (Secret opts) ?chart w4 = (None, chart, w5)" by simp
    then show ?thesis by (rule SetSecretValuesFile_within) simp_all
  qed
  moreover from st' have "within P T w5 w6" by (rule within_Stat) simp
  ultimately have "within P T w w6" using w1 by (blast intro: within_trans)
  with traverse_returns_both(1) [of P T ?S "walkFn ?S T (Secret opts)" ?S w w6 fuel]
    walkFn_within [of P ?S T "Secret opts"] no fuel
  have "filepath_Walk fuel ?S (walkFn ?S T (Secret opts)) w6 \<noteq> None"
    by (simp add: filepath_Walk_def)
  with wk show False by simp
qed

lemma walkFn_visit:
  assumes "walkFn S T secret (S @ y) (Inr (File x)) w = (None, w')"
  shows "secret = None \<Longrightarrow> lookup w' (T @ [DecodedSecretDirName] @ y) = Some (File [])"
    and "secret \<noteq> None \<Longrightarrow>
      \<exists>data. lookup w (S @ y) = Some (File data) \<and>
        lookup w' (T @ [DecodedSecretDirName] @ y) = Some (File (TrimRightSpace data))"
  using assms
  by (auto simp: walkFn_def Let_def TrimPrefix_def decodeSecret_def WriteFile_ok
      dest!: ReadFile_data split: option.splits prod.splits sum.splits)

lemma last_space_None: "last_space s = None \<longleftrightarrow> (\<forall>r\<in>set space_runes. \<not> suffix r s)"
  by (auto simp: last_space_def find_None_iff)

lemma last_space_Some:
  assumes "last_space s = Some r"
  shows "r \<in> set space_runes" and "s = take (length s - length r) s @ r"
  using assms by (auto simp: last_space_def find_Some_iff suffix_def)

lemma TrimRightSpace_split:
  "\<exists>rs. set rs \<subseteq> set space_runes \<and> s = TrimRightSpace s @ concat rs"
proof (induction s rule: TrimRightSpace.induct)
  case (1 s)
  show ?case
  proof (cases "last_space s")
    case None
    then have "TrimRightSpace s = s" by (subst TrimRightSpace.simps) simp
    then show ?thesis by (intro exI [of _ "[]"]) simp
  next
    case (Some r)
    let ?t = "take (length s - length r) s"
    from Some have trim: "TrimRightSpace s = TrimRightSpace ?t"
      by (subst TrimRightSpace.simps) simp
    from "1.IH" [OF Some] obtain rs where rs: "set rs \<subseteq> set space_runes"
      and t: "?t = TrimRightSpace ?t @ concat rs"
      by blast
    from last_space_Some [OF Some] have "r \<in> set space_runes" and s: "s = ?t @ r"
      by simp_all
    with rs have "set (rs @ [r]) \<subseteq> set space_runes" by simp
    moreover from s t trim have "s = TrimRightSpace s @ concat (rs @ [r])"
      by (metis append.assoc append_Nil2 concat.simps(1) concat.simps(2) concat_append)
    ultimately show ?thesis by blast
  qed
qed

lemma TrimRightSpace_no_space: "last_space (TrimRightSpace s) = None"
proof (induction s rule: TrimRightSpace.induct)
  case (1 s)
  show ?case
  proof (cases "last_space s")
    case None
    then show ?thesis by (subst TrimRightSpace.simps) simp
  next
    case (Some r)
    with "1.IH" [OF Some] show ?thesis by (subst TrimRightSpace.simps) simp
  qed
qed

lemma TrimRightSpace_removes_trailing_space:
  "(\<exists>rs. set rs \<subseteq> set space_runes \<and> data = TrimRightSpace data @ concat rs) \<and>
   (\<forall>r\<in>set space_runes. \<not> suffix r (TrimRightSpace data))"
  using TrimRightSpace_split [of data] TrimRightSpace_no_space [of data]
  by (simp add: last_space_None)

lemma policies_error_fails:
  "Call_DirExists g \<in> set (snd (runCleanup env ccd cd)) \<Longrightarrow> DirExists env g = Inr exist \<Longrightarrow>
   GetImagesCleanupPolicies env ccd = Inl e \<Longrightarrow>
   fst (runCleanup env ccd cd) = Some e \<and>
   (\<forall>opts. Call_Cleanup opts \<notin> set (snd (runCleanup env ccd cd)))"
  by (auto simp: runCleanup_def Let_def split: option.splits sum.splits)

lemma runCleanup_policies_error:
  "runCleanup env_policies_error flags_dry flags_without_kube =
     (Some (External ''bad policies''),
      [Call_werf_Init [] [], Call_lock_Init, Call_docker_registry_Init False,
       Call_docker_Init [], Call_kube_Init [] [], Call_GetProjectDir, Call_CreateProjectDir,
       Call_GetWerfConfig [''project''], Call_GetImagesRepo ''demo'', Call_GetStagesRepo,
       Call_DirExists [''project'', ''.git''], Call_GetImagesCleanupPolicies,
       Call_ReleaseProjectDir ''tmp-1''])"
  by (simp add: runCleanup_def env_policies_error_def env_ok_def flags_dry_def
      flags_without_kube_def Let_def)

lemma runCleanup_cleanup_error:
  "runCleanup env_cleanup_error flags_dry flags_without_kube =
     (Some (External ''registry unreachable''),
      [Call_werf_Init [] [], Call_lock_Init, Call_docker_registry_Init False,
       Call_docker_Init [], Call_kube_Init [] [], Call_GetProjectDir, Call_CreateProjectDir,
       Call_GetWerfConfig [''project''], Call_GetImagesRepo ''demo'', Call_GetStagesRepo,
       Call_DirExists [''project'', ''.git''], Call_GetImagesCleanupPolicies,
       Call_Cleanup options_demo, Call_ReleaseProjectDir ''tmp-1''])"
  by (simp add: runCleanup_def env_cleanup_error_def env_ok_def flags_dry_def
      flags_without_kube_def options_demo_def Let_def)

lemma git_check_goes_on:
  "Call_DirExists g \<in> set (snd (runCleanup env ccd cd)) \<Longrightarrow> DirExists env g = Inr exist \<Longrightarrow>
   Call_GetImagesCleanupPolicies \<in> set (snd (runCleanup env ccd cd))"
  by (auto simp: runCleanup_def Let_def split: option.splits sum.splits)

subsection \<open>The claims\<close>

text \<open>
  C1. For every byte slice and every secret (nil or not), \<open>decodeSecretValues\<close> and
  \<open>decodeSecret\<close> return the data unchanged with a nil error.
\<close>

theorem decode_is_pass_through:
  "decodeSecretValues data secret = Inr data \<and> decodeSecret data secret = Inr data"
  by (simp add: decodeSecretValues_def decodeSecret_def)

text \<open>
  C10. \<open>Deploy\<close> returns what \<open>DeployHelmChart\<close> returns on the chart's directory, the
  release name and the namespace, with the chart's \<open>Set\<close> and \<open>Values\<close> in front of the
  caller's, the caller's \<open>KubeContext\<close>, \<open>DryRun\<close> and \<open>Debug\<close> as they are, and the
  chart is the same afterwards.
\<close>

theorem Deploy_passes_chart_then_caller_options:
  "Deploy dhc chart releaseName namespace opts =
     (dhc (ChartDir chart) releaseName namespace
        \<lparr> hSet = Set chart @ hSet opts,
          hValues = Values chart @ hValues opts,
          hKubeContext = hKubeContext opts,
          hDryRun = hDryRun opts,
          hDebug = hDebug opts \<rparr>,
      chart)"
  by (simp add: Deploy_def)



text \<open>
  C9. When \<open>SetValues\<close> or \<open>SetSecretValuesFile\<close> returns an error, the chart is what it
  was before the call: \<open>Values\<close> has not grown and the counter has not moved.
\<close>

theorem values_write_error_leaves_chart:
  "(fst (SetValues m g v chart w) \<noteq> None \<longrightarrow> fst (snd (SetValues m g v chart w)) = chart) \<and>
   (fst (SetSecretValuesFile p s chart w) \<noteq> None \<longrightarrow>
      fst (snd (SetSecretValuesFile p s chart w)) = chart)"
  using SetValues_error [of m g v chart w] SetSecretValuesFile_error [of p s chart w]
  by blast

theorem values_write_error_leaves_chart_witness:
  "fst (SetValues marshal_ok gosyntax_unit () chart_t world_blocked) \<noteq> None \<and>
   fst (snd (SetValues marshal_ok gosyntax_unit () chart_t world_blocked)) = chart_t \<and>
   fst (SetSecretValuesFile [''s.yaml''] (None :: unit option) chart_t world_blocked) \<noteq> None \<and>
   fst (snd (SetSecretValuesFile [''s.yaml''] (None :: unit option) chart_t world_blocked)) = chart_t"
proof -
  have e1: "fst (SetValues marshal_ok gosyntax_unit () chart_t world_blocked) \<noteq> None"
    by code_simp
  have e2: "fst (SetSecretValuesFile [''s.yaml''] (None :: unit option) chart_t world_blocked) \<noteq> None"
    by code_simp
  from values_write_error_leaves_chart
    [of marshal_ok gosyntax_unit "()" chart_t world_blocked "[''s.yaml'']" "None :: unit option"] e1 e2
  show ?thesis by blast
qed

text \<open>
  C5, as the code has it. When \<open>runCleanup\<close> reaches the check for \<open>.git\<close> and the
  directory is not there, the check does not end the run: \<open>runCleanup\<close> goes on to read
  the cleanup policies; every call of \<open>cleanup.Cleanup\<close> gets a nil \<open>LocalGit\<close> in the
  images-cleanup options (for which the Git Reference Resolver of the spec gives the
  empty snapshot); once the policies are read, \<open>runCleanup\<close> calls \<open>cleanup.Cleanup\<close> and
  returns what it returns, and when the policies cannot be read it returns that error
  without the call. When the directory is there, \<open>LocalGit\<close> is the repository. At the
  check itself only an error of the check ends the run, with that error and without a
  call of \<open>cleanup.Cleanup\<close>.
\<close>

theorem no_git_directory_gives_nil_LocalGit:
  "(Call_DirExists g \<in> set (snd (runCleanup env ccd cd)) \<and> DirExists env g = Inr False \<longrightarrow>
      Call_GetImagesCleanupPolicies \<in> set (snd (runCleanup env ccd cd)) \<and>
      (\<forall>opts. Call_Cleanup opts \<in> set (snd (runCleanup env ccd cd)) \<longrightarrow>
         LocalGit (ImagesCleanupOptions opts) = None \<and>
         Snapshot b (LocalGit (ImagesCleanupOptions opts)) =
           Inr \<lparr>branches = [], tags = [], commits = []\<rparr>) \<and>
      (\<forall>policies. GetImagesCleanupPolicies env ccd = Inr policies \<longrightarrow>
         (\<exists>opts. Call_Cleanup opts \<in> set (snd (runCleanup env ccd cd)) \<and>
            fst (runCleanup env ccd cd) = Cleanup env opts)) \<and>
      (\<forall>err. GetImagesCleanupPolicies env ccd = Inl err \<longrightarrow>
         fst (runCleanup env ccd cd) = Some err \<and>
         (\<forall>opts. Call_Cleanup opts \<notin> set (snd (runCleanup env ccd cd))))) \<and>
   (Call_DirExists g \<in> set (snd (runCleanup env ccd cd)) \<and> DirExists env g = Inr True \<longrightarrow>
      (\<forall>opts. Call_Cleanup opts \<in> set (snd (runCleanup env ccd cd)) \<longrightarrow>
         LocalGit (ImagesCleanupOptions opts) = Some \<lparr>Path = butlast g, GitDir = g\<rparr>)) \<and>
   (Call_DirExists g \<in> set (snd (runCleanup env ccd cd)) \<and> DirExists env g = Inl e \<longrightarrow>
      fst (runCleanup env ccd cd) = Some e \<and>
      (\<forall>opts. Call_Cleanup opts \<notin> set (snd (runCleanup env ccd cd))))"
proof (intro conjI impI allI)
  assume gone: "Call_DirExists g \<in> set (snd (runCleanup env ccd cd)) \<and> DirExists env g = Inr False"
  with git_check_goes_on [of g env ccd cd False]
  show "Call_GetImagesCleanupPolicies \<in> set (snd (runCleanup env ccd cd))"
    by simp
next
  fix opts
  assume gone: "Call_DirExists g \<in> set (snd (runCleanup env ccd cd)) \<and> DirExists env g = Inr False"
    and called: "Call_Cleanup opts \<in> set (snd (runCleanup env ccd cd))"
  from gone called no_git_LocalGit [of g env ccd cd opts]
  show nil: "LocalGit (ImagesCleanupOptions opts) = None"
    by simp
  then show "Snapshot b (LocalGit (ImagesCleanupOptions opts)) =
      Inr \<lparr>branches = [], tags = [], commits = []\<rparr>"
    by simp
next
  fix policies
  assume "Call_DirExists g \<in> set (snd (runCleanup env ccd cd)) \<and> DirExists env g = Inr False"
    and "GetImagesCleanupPolicies env ccd = Inr policies"
  then show "\<exists>opts. Call_Cleanup opts \<in> set (snd (runCleanup env ccd cd)) \<and>
      fst (runCleanup env ccd cd) = Cleanup env opts"
    using no_git_proceeds [of g env ccd cd policies] by simp
next
  fix err
  assume gone: "Call_DirExists g \<in> set (snd (runCleanup env ccd cd)) \<and> DirExists env g = Inr False"
    and bad: "GetImagesCleanupPolicies env ccd = Inl err"
  with policies_error_fails [of g env ccd cd False err]
  show "fst (runCleanup env ccd cd) = Some err"
    by simp
  fix opts
  from gone bad policies_error_fails [of g env ccd cd False err]
  show "Call_Cleanup opts \<notin> set (snd (runCleanup env ccd cd))"
    by simp
next
  fix opts
  assume "Call_DirExists g \<in> set (snd (runCleanup env ccd cd)) \<and> DirExists env g = Inr True"
    and "Call_Cleanup opts \<in> set (snd (runCleanup env ccd cd))"
  with git_present [of g env ccd cd opts]
  show "LocalGit (ImagesCleanupOptions opts) = Some \<lparr>Path = butlast g, GitDir = g\<rparr>"
    by simp
next
  assume failed: "Call_DirExists g \<in> set (snd (runCleanup env ccd cd)) \<and> DirExists env g = Inl e"
  with git_check_error [of g env ccd cd e]
  show "fst (runCleanup env ccd cd) = Some e"
    by simp
  fix opts
  from failed git_check_error [of g env ccd cd e]
  show "Call_Cleanup opts \<notin> set (snd (runCleanup env ccd cd))"
    by simp
qed

theorem no_git_directory_gives_nil_LocalGit_witness:
  "Call_DirExists [''project'', ''.git''] \<in> set (snd (runCleanup env_ok flags_dry flags_without_kube)) \<and>
   DirExists env_ok [''project'', ''.git''] = Inr False \<and>
   Call_GetImagesCleanupPolicies \<in> set (snd (runCleanup env_ok flags_dry flags_without_kube)) \<and>
   Call_Cleanup options_demo \<in> set (snd (runCleanup env_ok flags_dry flags_without_kube)) \<and>
   LocalGit (ImagesCleanupOptions options_demo) = None \<and>
   Snapshot backends_demo (LocalGit (ImagesCleanupOptions options_demo)) =
     Inr \<lparr>branches = [], tags = [], commits = []\<rparr> \<and>
   fst (runCleanup env_ok flags_dry flags_without_kube) = None \<and>
   DirExists env_git_error [''project'', ''.git''] = Inl (External ''permission denied'') \<and>
   fst (runCleanup env_git_error flags_dry flags_without_kube) =
     Some (External ''permission denied'') \<and>
   GetImagesCleanupPolicies env_policies_error flags_dry = Inl (External ''bad policies'') \<and>
   fst (runCleanup env_policies_error flags_dry flags_without_kube) =
     Some (External ''bad policies'')"
proof -
  have reached: "Call_DirExists [''project'', ''.git''] \<in>
      set (snd (runCleanup env_ok flags_dry flags_without_kube))"
    and called: "Call_Cleanup options_demo \<in>
      set (snd (runCleanup env_ok flags_dry flags_without_kube))"
    and ok: "fst (runCleanup env_ok flags_dry flags_without_kube) = None"
    by (simp_all add: runCleanup_demo)
  have gone: "DirExists env_ok [''project'', ''.git''] = Inr False"
    by (simp add: env_ok_def)
  have reached': "Call_DirExists [''project'', ''.git''] \<in>
      set (snd (runCleanup env_git_error flags_dry flags_without_kube))"
    by (simp add: runCleanup_git_error)
  have failed: "DirExists env_git_error [''project'', ''.git''] =
      Inl (External ''permission denied'')"
    by (simp add: env_git_error_def)
  have reached'': "Call_DirExists [''project'', ''.git''] \<in>
      set (snd (runCleanup env_policies_error flags_dry flags_without_kube))"
    by (simp add: runCleanup_policies_error)
  have gone'': "DirExists env_policies_error [''project'', ''.git''] = Inr False"
    by (simp add: env_policies_error_def env_ok_def)
  have bad: "GetImagesCleanupPolicies env_policies_error flags_dry = Inl (External ''bad policies'')"
    by (simp add: env_policies_error_def)
  from no_git_directory_gives_nil_LocalGit
    [of "[''project'', ''.git'']" env_ok flags_dry flags_without_kube backends_demo]
    reached gone called
  have 1: "Call_GetImagesCleanupPolicies \<in>
       set (snd (runCleanup env_ok flags_dry flags_without_kube)) \<and>
     LocalGit (ImagesCleanupOptions options_demo) = None \<and>
     Snapshot backends_demo (LocalGit (ImagesCleanupOptions options_demo)) =
       Inr \<lparr>branches = [], tags = [], commits = []\<rparr>"
    by blast
  from no_git_directory_gives_nil_LocalGit
    [of "[''project'', ''.git'']" env_git_error flags_dry flags_without_kube backends_demo
      "External ''permission denied''"]
    reached' failed
  have 2: "fst (runCleanup env_git_error flags_dry flags_without_kube) =
     Some (External ''permission denied'')"
    by blast
  from no_git_directory_gives_nil_LocalGit
    [of "[''project'', ''.git'']" env_policies_error flags_dry flags_without_kube backends_demo]
    reached'' gone'' bad
  have 3: "fst (runCleanup env_policies_error flags_dry flags_without_kube) =
     Some (External ''bad policies'')"
    by blast
  from reached gone called ok failed bad 1 2 3 show ?thesis
    by simp
qed

text \<open>
  C5, as the claim states it: without \<open>.git\<close> and with a check that succeeds, the run
  still fails when the cleanup policies cannot be read (and then \<open>cleanup.Cleanup\<close> is
  never called), and it fails when \<open>cleanup.Cleanup\<close> fails.
\<close>

theorem no_git_directory_run_can_still_fail:
  "Call_DirExists [''project'', ''.git''] \<in>
     set (snd (runCleanup env_policies_error flags_dry flags_without_kube)) \<and>
   DirExists env_policies_error [''project'', ''.git''] = Inr False \<and>
   fst (runCleanup env_policies_error flags_dry flags_without_kube) =
     Some (External ''bad policies'') \<and>
   Call_Cleanup options_demo \<notin>
     set (snd (runCleanup env_policies_error flags_dry flags_without_kube)) \<and>
   Call_DirExists [''project'', ''.git''] \<in>
     set (snd (runCleanup env_cleanup_error flags_dry flags_without_kube)) \<and>
   DirExists env_cleanup_error [''project'', ''.git''] = Inr False \<and>
   fst (runCleanup env_cleanup_error flags_dry flags_without_kube) =
     Some (External ''registry unreachable'')"
proof -
  have "DirExists env_policies_error [''project'', ''.git''] = Inr False"
    and "DirExists env_cleanup_error [''project'', ''.git''] = Inr False"
    by (simp_all add: env_policies_error_def env_cleanup_error_def env_ok_def)
  then show ?thesis
    by (simp add: runCleanup_policies_error runCleanup_cleanup_error)
qed

text \<open>
  C6. Every call of \<open>cleanup.Cleanup\<close> that \<open>runCleanup\<close> makes carries the value of
  \<open>--dry-run\<close> in the \<open>DryRun\<close> of the common repo options of the images phase, in the
  \<open>DryRun\<close> of the project options of the stages phase and in the \<open>DryRun\<close> of the common
  repo options of the stages phase, so the options are of the form \<open>with_DryRun\<close> of that
  value. On the coordinator of the spec, a dry run and a real run on the same inputs give
  the same classification of tags and stages; the dry run issues no deletion call and the
  real run issues exactly the deletions decided.
\<close>

theorem dry_run_reaches_both_phases_and_keeps_the_decisions:
  "(\<forall>opts. Call_Cleanup opts \<in> set (snd (runCleanup env ccd cd)) \<longrightarrow>
      repo_DryRun (images_CommonRepoOptions (ImagesCleanupOptions opts)) = DryRun ccd \<and>
      common_DryRun (CommonOptions (stages_CommonProjectOptions (StagesCleanupOptions opts))) =
        DryRun ccd \<and>
      repo_DryRun (stages_CommonRepoOptions (StagesCleanupOptions opts)) = DryRun ccd \<and>
      with_DryRun (DryRun ccd) opts = opts) \<and>
   classification (Run b (with_DryRun True given)) =
     classification (Run b (with_DryRun False given)) \<and>
   deletion_calls (Run b (with_DryRun True given)) = ([], []) \<and>
   deletion_calls (Run b (with_DryRun False given)) =
     ((case fst (classification (Run b (with_DryRun False given))) of
         None \<Rightarrow> [] | Some (doomed, kept) \<Rightarrow> doomed),
      (case snd (classification (Run b (with_DryRun False given))) of
         None \<Rightarrow> [] | Some doomed \<Rightarrow> doomed))"
proof (intro conjI allI impI)
  fix opts :: "'a CleanupOptions"
  assume "Call_Cleanup opts \<in> set (snd (runCleanup env ccd cd))"
  from runCleanup_options [OF this]
  show a: "repo_DryRun (images_CommonRepoOptions (ImagesCleanupOptions opts)) = DryRun ccd"
    and b: "common_DryRun (CommonOptions (stages_CommonProjectOptions (StagesCleanupOptions opts))) =
        DryRun ccd"
    and c: "repo_DryRun (stages_CommonRepoOptions (StagesCleanupOptions opts)) = DryRun ccd"
    by simp_all
  from with_DryRun_id [OF a c b] show "with_DryRun (DryRun ccd) opts = opts" .
next
  show "classification (Run b (with_DryRun True given)) =
     classification (Run b (with_DryRun False given))"
    by (rule classification_dry)
  show "deletion_calls (Run b (with_DryRun True given)) = ([], [])"
    by (rule calls_dry)
  show "deletion_calls (Run b (with_DryRun False given)) =
     ((case fst (classification (Run b (with_DryRun False given))) of
         None \<Rightarrow> [] | Some (doomed, kept) \<Rightarrow> doomed),
      (case snd (classification (Run b (with_DryRun False given))) of
         None \<Rightarrow> [] | Some doomed \<Rightarrow> doomed))"
    by (rule calls_real)
qed

theorem dry_run_reaches_both_phases_and_keeps_the_decisions_witness:
  "Call_Cleanup options_demo \<in> set (snd (runCleanup env_ok flags_dry flags_without_kube)) \<and>
   DryRun flags_dry = True \<and>
   repo_DryRun (images_CommonRepoOptions (ImagesCleanupOptions options_demo)) = True \<and>
   common_DryRun (CommonOptions (stages_CommonProjectOptions (StagesCleanupOptions options_demo))) =
     True \<and>
   classification (Run backends_demo options_demo) =
     (Some ([tag_old], [tag_new]), Some [stages_demo ! 2]) \<and>
   classification (Run backends_demo (with_DryRun False options_demo)) =
     (Some ([tag_old], [tag_new]), Some [stages_demo ! 2]) \<and>
   deletion_calls (Run backends_demo options_demo) = ([], []) \<and>
   deletion_calls (Run backends_demo (with_DryRun False options_demo)) =
     ([tag_old], [stages_demo ! 2])"
proof -
  note inst = dry_run_reaches_both_phases_and_keeps_the_decisions
    [of env_ok flags_dry flags_without_kube backends_demo options_demo]
  have called: "Call_Cleanup options_demo \<in>
      set (snd (runCleanup env_ok flags_dry flags_without_kube))"
    by (simp add: runCleanup_demo)
  have flag: "DryRun flags_dry = True"
    by (simp add: flags_dry_def)
  from inst called flag
  have fields: "repo_DryRun (images_CommonRepoOptions (ImagesCleanupOptions options_demo)) = True \<and>
     common_DryRun (CommonOptions (stages_CommonProjectOptions (StagesCleanupOptions options_demo))) =
       True \<and>
     with_DryRun True options_demo = options_demo"
    by auto
  have dry: "classification (Run backends_demo options_demo) =
      (Some ([tag_old], [tag_new]), Some [stages_demo ! 2])"
    by code_simp
  from inst fields dry
  have real: "classification (Run backends_demo (with_DryRun False options_demo)) =
      (Some ([tag_old], [tag_new]), Some [stages_demo ! 2])"
    by simp
  from inst fields have none: "deletion_calls (Run backends_demo options_demo) = ([], [])"
    by simp
  from inst real
  have issued: "deletion_calls (Run backends_demo (with_DryRun False options_demo)) =
      ([tag_old], [stages_demo ! 2])"
    by simp
  from called flag fields dry real none issued show ?thesis
    by simp
qed

text \<open>
  C8. On the coordinator of the spec, \<open>Run\<close> ends in \<open>Done\<close> or \<open>Failed\<close> with the
  project's lock released, whatever the collaborators answer; along the run the lock is
  held exactly in the images phase and in the stages phase, so a fatal abort in the
  middle of either phase goes from a state that holds the lock to \<open>Failed\<close> without it.
\<close>

theorem lock_released_on_every_exit:
  "state (Run b opts) \<in> {Done, Failed} \<and>
   lock_held (Run b opts) = False \<and>
   Run b opts = (step b opts ^^ 4) initial \<and>
   (\<forall>k. lock_held ((step b opts ^^ k) initial) =
      (state ((step b opts ^^ k) initial) \<in> {ImagesPhase, StagesPhase}))"
proof (intro conjI allI)
  show terminal: "state (Run b opts) \<in> {Done, Failed}"
    by (rule Run_terminal)
  show funpow: "Run b opts = (step b opts ^^ 4) initial"
    by (rule Run_funpow)
  from steps_lock [where b = b and opts = opts and k = 4] terminal funpow
  show "lock_held (Run b opts) = False"
    by auto
  fix k
  show "lock_held ((step b opts ^^ k) initial) =
      (state ((step b opts ^^ k) initial) \<in> {ImagesPhase, StagesPhase})"
    by (rule steps_lock)
qed

theorem lock_released_on_every_exit_witness:
  "state ((step backends_unreachable options_demo ^^ 2) initial) = ImagesPhase \<and>
   lock_held ((step backends_unreachable options_demo ^^ 2) initial) = True \<and>
   state (Run backends_unreachable options_demo) = Failed \<and>
   lock_held (Run backends_unreachable options_demo) = False \<and>
   state ((step backends_cyclic options_demo ^^ 3) initial) = StagesPhase \<and>
   lock_held ((step backends_cyclic options_demo ^^ 3) initial) = True \<and>
   state (Run backends_cyclic options_demo) = Failed \<and>
   lock_held (Run backends_cyclic options_demo) = False \<and>
   state (Run backends_demo options_demo) = Done \<and>
   lock_held (Run backends_demo options_demo) = False"
proof -
  have 1: "state ((step backends_unreachable options_demo ^^ 2) initial) = ImagesPhase"
    by code_simp
  have 2: "state (Run backends_unreachable options_demo) = Failed"
    by code_simp
  have 3: "state ((step backends_cyclic options_demo ^^ 3) initial) = StagesPhase"
    by code_simp
  have 4: "state (Run backends_cyclic options_demo) = Failed"
    by code_simp
  have 5: "state (Run backends_demo options_demo) = Done"
    by code_simp
  note unreachable = lock_released_on_every_exit [of backends_unreachable options_demo]
  note cyclic = lock_released_on_every_exit [of backends_cyclic options_demo]
  note demo = lock_released_on_every_exit [of backends_demo options_demo]
  from unreachable
  have "lock_held ((step backends_unreachable options_demo ^^ 2) initial) =
      (state ((step backends_unreachable options_demo ^^ 2) initial) \<in> {ImagesPhase, StagesPhase})"
    by blast
  with 1 have 6: "lock_held ((step backends_unreachable options_demo ^^ 2) initial) = True"
    by simp
  from cyclic
  have "lock_held ((step backends_cyclic options_demo ^^ 3) initial) =
      (state ((step backends_cyclic options_demo ^^ 3) initial) \<in> {ImagesPhase, StagesPhase})"
    by blast
  with 3 have 7: "lock_held ((step backends_cyclic options_demo ^^ 3) initial) = True"
    by simp
  from unreachable cyclic demo
  have 8: "lock_held (Run backends_unreachable options_demo) = False"
    "lock_held (Run backends_cyclic options_demo) = False"
    "lock_held (Run backends_demo options_demo) = False"
    by blast+
  from 1 2 3 4 5 6 7 8 show ?thesis
    by simp
qed

text \<open>
  C2, as the code has it. Whatever \<open>PrepareDappChart\<close> returns, it has read files and
  listed directories under \<open>projectDir\<close> only and written files under \<open>targetDir\<close> only;
  outside \<open>targetDir\<close> the only change is that missing directories on the way to
  \<open>targetDir\<close> have been made. When neither directory lies in the other, nothing under
  \<open>projectDir\<close> has changed, and the call returns for every fuel beyond the depth of the
  tree.
\<close>

theorem PrepareDappChart_reads_project_writes_target:
  "(PrepareDappChart fuel tpl P T opts w = Some (r, w') \<longrightarrow>
      (\<exists>new. events w' = new @ events w \<and> list_all (ev_ok P T) new) \<and>
      (\<forall>q. \<not> prefix T q \<longrightarrow>
         lookup w' q = lookup w q \<or>
         (lookup w q = None \<and> lookup w' q = Some Dir \<and> prefix q T)) \<and>
      (\<not> prefix P T \<and> \<not> prefix T P \<longrightarrow> (\<forall>q. prefix P q \<longrightarrow> lookup w' q = lookup w q))) \<and>
   (\<not> prefix P T \<and> \<not> prefix T P \<and> deepest w < fuel \<longrightarrow>
      PrepareDappChart fuel tpl P T opts w \<noteq> None)"
proof (intro conjI impI allI)
  assume run: "PrepareDappChart fuel tpl P T opts w = Some (r, w')"
  from PrepareDappChart_within [OF run] have inside: "within P T w w'" .
  then show "\<exists>new. events w' = new @ events w \<and> list_all (ev_ok P T) new"
    unfolding within_def by blast
  {
    fix q
    assume "\<not> prefix T q"
    with inside show "lookup w' q = lookup w q \<or>
        (lookup w q = None \<and> lookup w' q = Some Dir \<and> prefix q T)"
      unfolding within_def by blast
  }
  {
    fix q
    assume "\<not> prefix P T \<and> \<not> prefix T P" and "prefix P q"
    with within_project_unchanged [OF inside, of q] show "lookup w' q = lookup w q"
      by blast
  }
next
  assume "\<not> prefix P T \<and> \<not> prefix T P \<and> deepest w < fuel"
  then show "PrepareDappChart fuel tpl P T opts w \<noteq> None"
    by (simp add: PrepareDappChart_returns)
qed

theorem PrepareDappChart_reads_project_writes_target_witness:
  "\<not> prefix [''p''] [''t''] \<and> \<not> prefix [''t''] [''p''] \<and> deepest world_project < 5 \<and>
   PrepareDappChart 5 ''TPL'' [''p''] [''t''] \<lparr>Secret = Some ()\<rparr> world_project \<noteq> None \<and>
   list_all (ev_ok [''p''] [''t''])
     (events (snd (the (PrepareDappChart 5 ''TPL'' [''p''] [''t''] \<lparr>Secret = Some ()\<rparr>
        world_project)))) \<and>
   lookup (snd (the (PrepareDappChart 5 ''TPL'' [''p''] [''t''] \<lparr>Secret = Some ()\<rparr>
        world_project))) [''p'', ''secret'', ''d'', ''c''] =
     Some (File (''cert'' @ [CHR 0xC2, CHR 0xA0])) \<and>
   lookup (snd (the (PrepareDappChart 5 ''TPL'' [''p''] [''t''] \<lparr>Secret = Some ()\<rparr>
        world_project))) [''t'', ''templates'', ''_dapp_helpers.tpl''] = Some (File ''TPL'')"
proof -
  let ?X = "PrepareDappChart 5 ''TPL'' [''p''] [''t''] \<lparr>Secret = Some ()\<rparr> world_project"
  note inst = PrepareDappChart_reads_project_writes_target
    [of 5 "''TPL''" "[''p'']" "[''t'']" "\<lparr>Secret = Some ()\<rparr>" world_project
      "fst (the ?X)" "snd (the ?X)"]
  have apart: "\<not> prefix [''p''] [''t'']" "\<not> prefix [''t''] [''p'']"
    by simp_all
  have depth: "deepest world_project < 5"
    by code_simp
  from inst apart depth have some: "?X \<noteq> None"
    by blast
  then have run: "?X = Some (fst (the ?X), snd (the ?X))"
    by auto
  have start: "events world_project = []"
    by (simp add: world_project_def)
  have before: "lookup world_project [''p'', ''secret'', ''d'', ''c''] =
      Some (File (''cert'' @ [CHR 0xC2, CHR 0xA0]))"
    by (simp add: world_project_def lookup_def)
  from inst run start have log: "list_all (ev_ok [''p''] [''t'']) (events (snd (the ?X)))"
    by auto
  have "prefix [''p''] [''p'', ''secret'', ''d'', ''c'']"
    by simp
  with inst run apart
  have "lookup (snd (the ?X)) [''p'', ''secret'', ''d'', ''c''] =
      lookup world_project [''p'', ''secret'', ''d'', ''c'']"
    by blast
  with before have after: "lookup (snd (the ?X)) [''p'', ''secret'', ''d'', ''c''] =
      Some (File (''cert'' @ [CHR 0xC2, CHR 0xA0]))"
    by simp
  have tpl: "lookup (snd (the ?X)) [''t'', ''templates'', ''_dapp_helpers.tpl''] =
      Some (File ''TPL'')"
    by code_simp
  from apart depth some log after tpl show ?thesis
    by blast
qed

text \<open>
  C2, as the claim states it: with the project directory itself as the target, the call
  succeeds and creates the helpers template under the project directory.
\<close>

theorem PrepareDappChart_writes_under_project_when_target_inside:
  "\<not> isl (fst (the (PrepareDappChart 5 ''TPL'' [''p''] [''p''] \<lparr>Secret = Some ()\<rparr>
        world_project))) \<and>
   prefix [''p''] [''p'', ''templates'', ''_dapp_helpers.tpl''] \<and>
   lookup world_project [''p'', ''templates'', ''_dapp_helpers.tpl''] = None \<and>
   lookup (snd (the (PrepareDappChart 5 ''TPL'' [''p''] [''p''] \<lparr>Secret = Some ()\<rparr>
        world_project))) [''p'', ''templates'', ''_dapp_helpers.tpl''] = Some (File ''TPL'')"
proof -
  have "\<not> isl (fst (the (PrepareDappChart 5 ''TPL'' [''p''] [''p''] \<lparr>Secret = Some ()\<rparr>
        world_project)))"
    by code_simp
  moreover have "prefix [''p''] [''p'', ''templates'', ''_dapp_helpers.tpl'']"
    by simp
  moreover have "lookup world_project [''p'', ''templates'', ''_dapp_helpers.tpl''] = None"
    by (simp add: world_project_def lookup_def)
  moreover have "lookup (snd (the (PrepareDappChart 5 ''TPL'' [''p''] [''p''] \<lparr>Secret = Some ()\<rparr>
        world_project))) [''p'', ''templates'', ''_dapp_helpers.tpl''] = Some (File ''TPL'')"
    by code_simp
  ultimately show ?thesis
    by blast
qed

text \<open>
  C4, as the code has it. A visit of the walk to a file at the relative path \<open>y\<close> under
  \<open>projectDir/secret\<close> that returns nil has written \<open>targetDir/decoded-secret/y\<close>: empty
  when the secret is nil, and otherwise the bytes the visit read from the source file
  without their trailing white space, that is, the source is the written content
  followed by white-space runes only, and the written content ends in no white-space
  rune. For the whole call, when neither directory lies in the other: after a
  successful \<open>PrepareDappChart\<close>, every file in the tree under \<open>projectDir/secret\<close> is
  what it was and has this counterpart under \<open>targetDir/decoded-secret\<close>.
\<close>

theorem secret_files_are_decoded_into_target:
  "(walkFn S T secret (S @ y) (Inr (File x)) w = (None, w') \<longrightarrow>
      (secret = None \<longrightarrow> lookup w' (T @ [DecodedSecretDirName] @ y) = Some (File [])) \<and>
      (secret \<noteq> None \<longrightarrow>
         (\<exists>data c. lookup w (S @ y) = Some (File data) \<and>
            lookup w' (T @ [DecodedSecretDirName] @ y) = Some (File c) \<and>
            c = TrimRightSpace data \<and>
            (\<exists>rs. set rs \<subseteq> set space_runes \<and> data = c @ concat rs) \<and>
            (\<forall>r\<in>set space_runes. \<not> suffix r c)))) \<and>
   (PrepareDappChart fuel tpl P T opts w = Some (Inr chart, w'') \<and>
    \<not> prefix P T \<and> \<not> prefix T P \<and>
    lookup w (P @ [SecretDirName] @ rel) = Some (File data) \<and>
    (\<forall>i<length rel. lookup w (P @ [SecretDirName] @ take i rel) = Some Dir) \<longrightarrow>
      lookup w'' (P @ [SecretDirName] @ rel) = Some (File data) \<and>
      (Secret opts = None \<longrightarrow> lookup w'' (T @ [DecodedSecretDirName] @ rel) = Some (File [])) \<and>
      (Secret opts \<noteq> None \<longrightarrow>
         (\<exists>c. lookup w'' (T @ [DecodedSecretDirName] @ rel) = Some (File c) \<and>
            c = TrimRightSpace data \<and>
            (\<exists>rs. set rs \<subseteq> set space_runes \<and> data = c @ concat rs) \<and>
            (\<forall>r\<in>set space_runes. \<not> suffix r c))))"
proof (intro conjI impI)
  assume visit: "walkFn S T secret (S @ y) (Inr (File x)) w = (None, w')"
  {
    assume "secret = None"
    with walkFn_visit(1) [OF visit]
    show "lookup w' (T @ [DecodedSecretDirName] @ y) = Some (File [])"
      by simp
  }
  {
    assume "secret \<noteq> None"
    with walkFn_visit(2) [OF visit] obtain data
      where "lookup w (S @ y) = Some (File data)"
        and "lookup w' (T @ [DecodedSecretDirName] @ y) = Some (File (TrimRightSpace data))"
      by blast
    with TrimRightSpace_removes_trailing_space [of data]
    show "\<exists>data c. lookup w (S @ y) = Some (File data) \<and>
        lookup w' (T @ [DecodedSecretDirName] @ y) = Some (File c) \<and>
        c = TrimRightSpace data \<and>
        (\<exists>rs. set rs \<subseteq> set space_runes \<and> data = c @ concat rs) \<and>
        (\<forall>r\<in>set space_runes. \<not> suffix r c)"
      by blast
  }
next
  assume all: "PrepareDappChart fuel tpl P T opts w = Some (Inr chart, w'') \<and>
    \<not> prefix P T \<and> \<not> prefix T P \<and>
    lookup w (P @ [SecretDirName] @ rel) = Some (File data) \<and>
    (\<forall>i<length rel. lookup w (P @ [SecretDirName] @ take i rel) = Some Dir)"
  then have run: "PrepareDappChart fuel tpl P T opts w = Some (Inr chart, w'')"
    and apart: "\<not> prefix P T" "\<not> prefix T P"
    and isfile: "lookup w (P @ [SecretDirName] @ rel) = Some (File data)"
    and dirs: "\<forall>i<length rel. lookup w (P @ [SecretDirName] @ take i rel) = Some Dir"
    by simp_all
  have "prefix P (P @ [SecretDirName] @ rel)"
    by simp
  from within_project_unchanged [OF PrepareDappChart_within [OF run] apart this] isfile
  show "lookup w'' (P @ [SecretDirName] @ rel) = Some (File data)"
    by simp
  from PrepareDappChart_decodes [OF run apart isfile dirs]
  have written: "lookup w'' (T @ [DecodedSecretDirName] @ rel) =
      Some (File (decoded (Secret opts) data))" .
  {
    assume "Secret opts = None"
    with written show "lookup w'' (T @ [DecodedSecretDirName] @ rel) = Some (File [])"
      by (simp add: decoded_def)
  }
  {
    assume "Secret opts \<noteq> None"
    with written
    have "lookup w'' (T @ [DecodedSecretDirName] @ rel) = Some (File (TrimRightSpace data))"
      by (simp add: decoded_def)
    with TrimRightSpace_removes_trailing_space [of data]
    show "\<exists>c. lookup w'' (T @ [DecodedSecretDirName] @ rel) = Some (File c) \<and>
        c = TrimRightSpace data \<and>
        (\<exists>rs. set rs \<subseteq> set space_runes \<and> data = c @ concat rs) \<and>
        (\<forall>r\<in>set space_runes. \<not> suffix r c)"
      by blast
  }
qed

theorem secret_files_are_decoded_into_target_witness:
  "\<not> isl (fst (the (PrepareDappChart 5 ''TPL'' [''p''] [''t''] \<lparr>Secret = Some ()\<rparr>
        world_project))) \<and>
   lookup world_project ([''p''] @ [SecretDirName] @ [''d'', ''c'']) =
     Some (File (''cert'' @ [CHR 0xC2, CHR 0xA0])) \<and>
   lookup (snd (the (PrepareDappChart 5 ''TPL'' [''p''] [''t''] \<lparr>Secret = Some ()\<rparr>
        world_project))) [''t'', ''decoded-secret'', ''d'', ''c''] = Some (File ''cert'') \<and>
   \<not> isl (fst (the (PrepareDappChart 5 ''TPL'' [''p''] [''t''] \<lparr>Secret = None :: unit option\<rparr>
        world_project))) \<and>
   lookup (snd (the (PrepareDappChart 5 ''TPL'' [''p''] [''t''] \<lparr>Secret = None :: unit option\<rparr>
        world_project))) [''t'', ''decoded-secret'', ''d'', ''c''] = Some (File []) \<and>
   fst (walkFn [''p'', ''secret''] [''t''] (Some ()) ([''p'', ''secret''] @ [''k''])
          (Inr (File (''key  '' @ [CHR 0x0A]))) world_project) = None \<and>
   lookup (snd (walkFn [''p'', ''secret''] [''t''] (Some ()) ([''p'', ''secret''] @ [''k''])
          (Inr (File (''key  '' @ [CHR 0x0A]))) world_project))
     [''t'', ''decoded-secret'', ''k''] = Some (File ''key'')"
proof -
  let ?V = "walkFn [''p'', ''secret''] [''t''] (Some ()) ([''p'', ''secret''] @ [''k''])
          (Inr (File (''key  '' @ [CHR 0x0A]))) world_project"
  have okV: "fst ?V = None"
    by code_simp
  then have runV: "?V = (None, snd ?V)"
    by (metis prod.collapse)
  have srcV: "lookup world_project ([''p'', ''secret''] @ [''k'']) =
      Some (File (''key  '' @ [CHR 0x0A]))"
    by (simp add: world_project_def lookup_def)
  have trimV: "TrimRightSpace (''key  '' @ [CHR 0x0A]) = ''key''"
    by code_simp
  from secret_files_are_decoded_into_target
    [where S = "[''p'', ''secret'']" and T = "[''t'']" and secret = "Some ()" and y = "[''k'']"
       and x = "''key  '' @ [CHR 0x0A]" and w = world_project and w' = "snd ?V",
     THEN conjunct1] runV
  have "\<exists>data. lookup world_project ([''p'', ''secret''] @ [''k'']) = Some (File data) \<and>
      lookup (snd ?V) ([''t''] @ [DecodedSecretDirName] @ [''k'']) =
        Some (File (TrimRightSpace data))"
    by blast
  with srcV trimV
  have V: "lookup (snd ?V) [''t'', ''decoded-secret'', ''k''] = Some (File ''key'')"
    by (auto simp: DecodedSecretDirName_def)
  let ?X = "PrepareDappChart 5 ''TPL'' [''p''] [''t''] \<lparr>Secret = Some ()\<rparr> world_project"
  let ?N = "PrepareDappChart 5 ''TPL'' [''p''] [''t''] \<lparr>Secret = None :: unit option\<rparr>
      world_project"
  have okX: "\<not> isl (fst (the ?X))" and someX: "?X \<noteq> None"
    and okN: "\<not> isl (fst (the ?N))" and someN: "?N \<noteq> None"
    by code_simp+
  from okX someX have runX: "?X = Some (Inr (projr (fst (the ?X))), snd (the ?X))"
    by (cases ?X) (auto simp: isl_def split: sum.splits prod.splits)
  from okN someN have runN: "?N = Some (Inr (projr (fst (the ?N))), snd (the ?N))"
    by (cases ?N) (auto simp: isl_def split: sum.splits prod.splits)
  have apart: "\<not> prefix [''p''] [''t'']" "\<not> prefix [''t''] [''p'']"
    by simp_all
  have isfile: "lookup world_project ([''p''] @ [SecretDirName] @ [''d'', ''c'']) =
      Some (File (''cert'' @ [CHR 0xC2, CHR 0xA0]))"
    by (simp add: world_project_def lookup_def SecretDirName_def)
  have dirs: "\<forall>i<length [''d'', ''c''].
      lookup world_project ([''p''] @ [SecretDirName] @ take i [''d'', ''c'']) = Some Dir"
    by (simp add: world_project_def lookup_def SecretDirName_def less_Suc_eq
        numeral_2_eq_2 all_conj_distrib)
  have trim: "TrimRightSpace (''cert'' @ [CHR 0xC2, CHR 0xA0]) = ''cert''"
    by code_simp
  have some: "Secret \<lparr>Secret = Some ()\<rparr> \<noteq> None"
    and none: "Secret \<lparr>Secret = None :: unit option\<rparr> = None"
    by simp_all
  note instX = secret_files_are_decoded_into_target
    [where fuel = 5 and tpl = "''TPL''" and P = "[''p'']" and T = "[''t'']"
       and opts = "\<lparr>Secret = Some ()\<rparr>" and w = world_project
       and chart = "projr (fst (the ?X))" and w'' = "snd (the ?X)" and rel = "[''d'', ''c'']"
       and data = "''cert'' @ [CHR 0xC2, CHR 0xA0]", THEN conjunct2]
  note instN = secret_files_are_decoded_into_target
    [where fuel = 5 and tpl = "''TPL''" and P = "[''p'']" and T = "[''t'']"
       and opts = "\<lparr>Secret = None :: unit option\<rparr>" and w = world_project
       and chart = "projr (fst (the ?N))" and w'' = "snd (the ?N)" and rel = "[''d'', ''c'']"
       and data = "''cert'' @ [CHR 0xC2, CHR 0xA0]", THEN conjunct2]
  from instX runX apart isfile dirs some
  have "lookup (snd (the ?X)) ([''t''] @ [DecodedSecretDirName] @ [''d'', ''c'']) =
      Some (File (TrimRightSpace (''cert'' @ [CHR 0xC2, CHR 0xA0])))"
    by blast
  with trim
  have X: "lookup (snd (the ?X)) [''t'', ''decoded-secret'', ''d'', ''c''] = Some (File ''cert'')"
    by (simp add: DecodedSecretDirName_def)
  from instN runN apart isfile dirs none
  have "lookup (snd (the ?N)) ([''t''] @ [DecodedSecretDirName] @ [''d'', ''c'']) = Some (File [])"
    by blast
  then
  have N: "lookup (snd (the ?N)) [''t'', ''decoded-secret'', ''d'', ''c''] = Some (File [])"
    by (simp add: DecodedSecretDirName_def)
  from okX isfile X okN N okV V show ?thesis
    by blast
qed

text \<open>
  C4, as the claim states it: with the secret directory itself as the target, a
  successful call rewrites its own sources while it walks them. The file
  \<open>decoded-secret/a\<close> under \<open>projectDir/secret\<close> holds \<open>x\<close> when the call begins, and its
  counterpart is written as \<open>y\<close> (the decoded bytes of the file \<open>a\<close>, which the walk had put
  in its place before reading it); the file \<open>decoded-secret/zzz/f\<close> holds \<open>v\<close> when the call
  ends, and its counterpart is \<open>u\<close> (written before the walk replaced the source).
\<close>

theorem secret_file_rewritten_when_target_is_secret_dir:
  "\<not> isl (fst (the (PrepareDappChart 6 ''TPL'' [''p''] [''p'', ''secret''] \<lparr>Secret = Some ()\<rparr>
        world_overlap))) \<and>
   lookup world_overlap ([''p''] @ [SecretDirName] @ [''decoded-secret'', ''a'']) =
     Some (File ''x'') \<and>
   TrimRightSpace ''x'' = ''x'' \<and>
   lookup (snd (the (PrepareDappChart 6 ''TPL'' [''p''] [''p'', ''secret''] \<lparr>Secret = Some ()\<rparr>
        world_overlap)))
     ([''p'', ''secret''] @ [DecodedSecretDirName] @ [''decoded-secret'', ''a'']) =
     Some (File ''y'') \<and>
   lookup (snd (the (PrepareDappChart 6 ''TPL'' [''p''] [''p'', ''secret''] \<lparr>Secret = Some ()\<rparr>
        world_overlap)))
     ([''p''] @ [SecretDirName] @ [''decoded-secret'', ''zzz'', ''f'']) =
     Some (File ''v'') \<and>
   TrimRightSpace ''v'' = ''v'' \<and>
   lookup (snd (the (PrepareDappChart 6 ''TPL'' [''p''] [''p'', ''secret''] \<lparr>Secret = Some ()\<rparr>
        world_overlap)))
     ([''p'', ''secret''] @ [DecodedSecretDirName] @ [''decoded-secret'', ''zzz'', ''f'']) =
     Some (File ''u'')"
proof -
  let ?X = "PrepareDappChart 6 ''TPL'' [''p''] [''p'', ''secret''] \<lparr>Secret = Some ()\<rparr>
      world_overlap"
  have "\<not> isl (fst (the ?X))"
    by code_simp
  moreover have "lookup world_overlap ([''p''] @ [SecretDirName] @ [''decoded-secret'', ''a'']) =
      Some (File ''x'')"
    by code_simp
  moreover have "TrimRightSpace ''x'' = ''x''" and "TrimRightSpace ''v'' = ''v''"
    by code_simp+
  moreover have "lookup (snd (the ?X))
      ([''p'', ''secret''] @ [DecodedSecretDirName] @ [''decoded-secret'', ''a'']) =
      Some (File ''y'')"
    by code_simp
  moreover have "lookup (snd (the ?X))
      ([''p''] @ [SecretDirName] @ [''decoded-secret'', ''zzz'', ''f'']) = Some (File ''v'')"
    by code_simp
  moreover have "lookup (snd (the ?X))
      ([''p'', ''secret''] @ [DecodedSecretDirName] @ [''decoded-secret'', ''zzz'', ''f'']) =
      Some (File ''u'')"
    by code_simp
  ultimately show ?thesis
    by blast
qed

end
